theory Spec2Isabelle
  imports Complex_Main
begin

section \<open>Rate limiter (src/utils/rate-limiter.ts)\<close>

text \<open>
  Times are JavaScript epoch milliseconds (\<open>Date.now()\<close>), modelled as unbounded integers.
  Every call that reads the clock takes the reading as an argument.
\<close>

subsection \<open>MemoryStore\<close>

text \<open>The private map \<open>hits: Map<string, { count, resetTime }>\<close>.\<close>

record hit =
  count :: int
  resetTime :: int

type_synonym hits = "string \<rightharpoonup> hit"

record increment_result =
  totalHits :: int
  timeToExpire :: int

text \<open>
  \<open>MemoryStore.increment(key)\<close>: the first argument is the clock reading \<open>now\<close>; the
  result is the reply together with the updated map.
\<close>

definition increment :: "int \<Rightarrow> hits \<Rightarrow> string \<Rightarrow> increment_result \<times> hits" where
  "increment now hs key =
     (case hs key of
        None \<Rightarrow>
          (\<lparr>totalHits = 1, timeToExpire = 60000\<rparr>,
           hs(key \<mapsto> \<lparr>count = 1, resetTime = now + 60000\<rparr>))
      | Some current \<Rightarrow>
          if resetTime current \<le> now then
            (\<lparr>totalHits = 1, timeToExpire = 60000\<rparr>,
             hs(key \<mapsto> \<lparr>count = 1, resetTime = now + 60000\<rparr>))
          else
            (\<lparr>totalHits = count current + 1, timeToExpire = resetTime current - now\<rparr>,
             hs(key \<mapsto> current\<lparr>count := count current + 1\<rparr>)))"

definition decrement :: "hits \<Rightarrow> string \<Rightarrow> hits" where
  "decrement hs key =
     (case hs key of
        None \<Rightarrow> hs
      | Some current \<Rightarrow>
          if count current > 0 then hs(key \<mapsto> current\<lparr>count := count current - 1\<rparr>) else hs)"

definition resetKey :: "hits \<Rightarrow> string \<Rightarrow> hits" where
  "resetKey hs key = hs(key := None)"

subsection \<open>Tier table\<close>

datatype tier = FREE | BASIC | PREMIUM | ENTERPRISE

record tier_limit =
  requests :: int
  window :: int

fun rateLimitTiers :: "tier \<Rightarrow> tier_limit" where
  "rateLimitTiers FREE = \<lparr>requests = 100, window = 3600000\<rparr>"
| "rateLimitTiers BASIC = \<lparr>requests = 1000, window = 3600000\<rparr>"
| "rateLimitTiers PREMIUM = \<lparr>requests = 10000, window = 3600000\<rparr>"
| "rateLimitTiers ENTERPRISE = \<lparr>requests = 100000, window = 3600000\<rparr>"

subsection \<open>The request context seen by the limiter\<close>

text \<open>
  Of Hono's \<open>Context\<close> the limiter touches: the request headers \<open>x-api-key\<close>,
  \<open>cf-connecting-ip\<close> and \<open>x-forwarded-for\<close>, the variables \<open>rateLimitTier\<close> and
  \<open>apiKey\<close> set by the authentication middleware, the ad-hoc property \<open>rateLimitMax\<close>
  that the application's key generator assigns, and the response headers.
  The numeric response headers carry the number; \<open>X-RateLimit-Reset\<close> carries the epoch
  milliseconds of the ISO timestamp that is sent.
\<close>

record ctx =
  req_x_api_key :: "string option"
  req_cf_connecting_ip :: "string option"
  req_x_forwarded_for :: "string option"
  var_rateLimitTier :: tier
  var_apiKey :: "string option"
  rateLimitMax :: "int option"
  res_headers :: "(string \<times> int) list"

definition header :: "string \<Rightarrow> int \<Rightarrow> ctx \<Rightarrow> ctx" where
  "header name v c = c\<lparr>res_headers := (name, v) # filter (\<lambda>h. fst h \<noteq> name) (res_headers c)\<rparr>"

text \<open>A JavaScript string is falsy exactly when it is empty or missing.\<close>

fun truthy :: "string option \<Rightarrow> bool" where
  "truthy None = False"
| "truthy (Some s) = (s \<noteq> [])"

record RateLimitConfig =
  windowMs :: int
  max_config :: int
  message :: "string option"
  keyGenerator :: "(ctx \<Rightarrow> string \<times> ctx) option"

text \<open>\<open>forwarded.split(",")[0].trim()\<close>: the text before the first comma, without blanks at
  either end.\<close>

definition is_blank :: "char \<Rightarrow> bool" where
  "is_blank ch = (ch = CHR '' '' \<or> ch = CHR 0x09 \<or> ch = CHR 0x0A \<or> ch = CHR 0x0D)"

definition trim :: "string \<Rightarrow> string" where
  "trim s = rev (dropWhile is_blank (rev (dropWhile is_blank s)))"

definition getClientKey :: "ctx \<Rightarrow> string" where
  "getClientKey c =
     (if truthy (req_x_api_key c) then ''api:'' @ the (req_x_api_key c)
      else
        let forwarded =
              (if truthy (req_cf_connecting_ip c) then req_cf_connecting_ip c
               else req_x_forwarded_for c);
            ip = (if truthy forwarded
                  then trim (takeWhile (\<lambda>ch. ch \<noteq> CHR '','') (the forwarded))
                  else ''unknown'')
        in ''ip:'' @ ip)"

text \<open>The outcome of a middleware: a JSON reply \<open>c.json({code, message}, status)\<close>, or
  \<open>next()\<close> with the context it hands on.\<close>

datatype 'a outcome = Reply int string int | Next 'a

definition ceil_div_1000 :: "int \<Rightarrow> int" where
  "ceil_div_1000 t = - ((- t) div 1000)"

text \<open>
  The middleware returned by \<open>createRateLimiter(config, store)\<close>, with the MemoryStore as
  its store. \<open>now\<close> is the clock at \<open>store.increment\<close>, \<open>now'\<close> the clock at the
  \<open>X-RateLimit-Reset\<close> header.
\<close>

definition createRateLimiter ::
  "RateLimitConfig \<Rightarrow> int \<Rightarrow> int \<Rightarrow> hits \<Rightarrow> ctx \<Rightarrow> ctx outcome \<times> ctx \<times> hits" where
  "createRateLimiter config now now' hs c0 =
     (let (key, c1) = (case keyGenerator config of
                         Some g \<Rightarrow> g c0
                       | None \<Rightarrow> (getClientKey c0, c0));
          (r, hs') = increment now hs key;
          c2 = header ''X-RateLimit-Limit'' (max_config config) c1;
          c3 = header ''X-RateLimit-Remaining'' (max 0 (max_config config - totalHits r)) c2;
          c4 = header ''X-RateLimit-Reset'' (now' + timeToExpire r) c3
      in if totalHits r > max_config config then
           (let c5 = header ''Retry-After'' (ceil_div_1000 (timeToExpire r)) c4
            in (Reply 42901
                  (case message config of
                     Some m \<Rightarrow> if m = [] then ''Too many requests. Please try again later.'' else m
                   | None \<Rightarrow> ''Too many requests. Please try again later.'')
                  429, c5, hs'))
         else (Next c4, c4, hs'))"

subsection \<open>The limiter as the application installs it\<close>

text \<open>The key generator passed in the application's \<open>app.use("*", createRateLimiter({...}))\<close>.\<close>

definition app_keyGenerator :: "ctx \<Rightarrow> string \<times> ctx" where
  "app_keyGenerator c =
     (let tier = var_rateLimitTier c;
          apiKey = var_apiKey c;
          limit = requests (rateLimitTiers tier);
          c' = c\<lparr>rateLimitMax := Some limit\<rparr>
      in (if truthy apiKey then ''api:'' @ the apiKey
          else ''ip:'' @ (if truthy (req_cf_connecting_ip c) then the (req_cf_connecting_ip c)
                         else ''unknown''),
          c'))"

definition app_rateLimitConfig :: RateLimitConfig where
  "app_rateLimitConfig =
     \<lparr>windowMs = 3600000, max_config = 100, message = None, keyGenerator = Some app_keyGenerator\<rparr>"

definition app_rateLimiter :: "int \<Rightarrow> int \<Rightarrow> hits \<Rightarrow> ctx \<Rightarrow> ctx outcome \<times> ctx \<times> hits" where
  "app_rateLimiter = createRateLimiter app_rateLimitConfig"

section \<open>Two-tier cache (src/utils/cache.ts)\<close>

text \<open>
  An entry of the in-process map holds the value as it was passed in; a row of the
  \<open>CacheEntry\<close> table holds its JSON text. Both carry \<open>expiresAt\<close> in epoch milliseconds.
  The table is keyed by its unique column \<open>key\<close>.
  Values of type \<open>'v\<close> are the non-null JSON values callers store; \<open>None\<close> is JavaScript's
  \<open>null\<close>. \<open>JSON.stringify\<close> and \<open>JSON.parse\<close> are parameters of the model:
  \<open>stringify\<close> is total, \<open>parse\<close> yields \<open>None\<close> where \<open>JSON.parse\<close> throws.
\<close>

record 'a item =
  item_value :: 'a
  expiresAt :: int

type_synonym cacheEntry_table = "string \<rightharpoonup> string item"

text \<open>
  A call of the Prisma client either rejects or answers. Whether the backend rejects a
  given call is an input of the model (\<open>rejects\<close>); a rejected call leaves the table as
  it was. \<open>delete\<close> also rejects when there is no such row.
\<close>

datatype db_error = PrismaError

definition findUnique :: "bool \<Rightarrow> ('k \<rightharpoonup> 'r) \<Rightarrow> 'k \<Rightarrow> db_error + 'r option" where
  "findUnique rejects tbl k = (if rejects then Inl PrismaError else Inr (tbl k))"

definition upsert :: "bool \<Rightarrow> ('k \<rightharpoonup> 'r) \<Rightarrow> 'k \<Rightarrow> 'r \<Rightarrow> db_error + ('k \<rightharpoonup> 'r)" where
  "upsert rejects tbl k r = (if rejects then Inl PrismaError else Inr (tbl(k \<mapsto> r)))"

definition delete_row :: "bool \<Rightarrow> ('k \<rightharpoonup> 'r) \<Rightarrow> 'k \<Rightarrow> db_error + ('k \<rightharpoonup> 'r)" where
  "delete_row rejects tbl k =
     (if rejects \<or> tbl k = None then Inl PrismaError else Inr (tbl(k := None)))"

definition deleteMany :: "bool \<Rightarrow> ('r \<Rightarrow> bool) \<Rightarrow> ('k \<rightharpoonup> 'r) \<Rightarrow> db_error + ('k \<rightharpoonup> 'r)" where
  "deleteMany rejects P tbl =
     (if rejects then Inl PrismaError
      else Inr (\<lambda>k. case tbl k of None \<Rightarrow> None | Some r \<Rightarrow> if P r then None else Some r))"

record 'v CacheManager =
  memoryCache :: "string \<rightharpoonup> 'v item"
  prefix :: "string option"

definition defaultTTL :: int where
  "defaultTTL = 3600"

definition getKey :: "'v CacheManager \<Rightarrow> string \<Rightarrow> string" where
  "getKey c key =
     (case prefix c of
        None \<Rightarrow> key
      | Some p \<Rightarrow> if p \<noteq> [] then p @ '':'' @ key else key)"

text \<open>
  \<open>get(key)\<close>: \<open>now\<close> is the clock at the memory check, \<open>now'\<close> the clock at the check of
  the row. \<open>check_database\<close> is the \<open>try\<close> block with the \<open>return null\<close> that follows it:
  the \<open>catch\<close> covers the table read and \<open>JSON.parse\<close>, and only logs.
\<close>

definition check_database ::
  "(string \<Rightarrow> 'v option) \<Rightarrow> bool \<Rightarrow> int \<Rightarrow> cacheEntry_table \<Rightarrow> 'v CacheManager \<Rightarrow> string
     \<Rightarrow> 'v option \<times> 'v CacheManager" where
  "check_database parse rejects now' db c cacheKey =
     (case findUnique rejects db cacheKey of
        Inl error \<Rightarrow> (None, c)
      | Inr None \<Rightarrow> (None, c)
      | Inr (Some dbItem) \<Rightarrow>
          if expiresAt dbItem > now' then
            (case parse (item_value dbItem) of
               None \<Rightarrow> (None, c)
             | Some v \<Rightarrow>
                 (Some v,
                  c\<lparr>memoryCache := (memoryCache c)
                       (cacheKey \<mapsto> \<lparr>item_value = v, expiresAt = expiresAt dbItem\<rparr>)\<rparr>))
          else (None, c))"

text \<open>\<open>check_memory\<close> is the part of \<open>get\<close> that runs before its first \<open>await\<close>: the live
  value of the memory tier, if there is one.\<close>

definition check_memory :: "int \<Rightarrow> 'v CacheManager \<Rightarrow> string \<Rightarrow> 'v option" where
  "check_memory now c cacheKey =
     (case memoryCache c cacheKey of
        None \<Rightarrow> None
      | Some memoryItem \<Rightarrow> if expiresAt memoryItem > now then Some (item_value memoryItem) else None)"

definition cache_get ::
  "(string \<Rightarrow> 'v option) \<Rightarrow> bool \<Rightarrow> int \<Rightarrow> int \<Rightarrow> cacheEntry_table \<Rightarrow> 'v CacheManager \<Rightarrow> string
     \<Rightarrow> 'v option \<times> 'v CacheManager" where
  "cache_get parse rejects now now' db c key =
     (let cacheKey = getKey c key
      in case check_memory now c cacheKey of
           Some v \<Rightarrow> (Some v, c)
         | None \<Rightarrow> check_database parse rejects now' db c cacheKey)"

text \<open>\<open>ttl || this.defaultTTL\<close>: a missing \<open>ttl\<close> and the number 0 are falsy. The time to
  live is a whole number of seconds.\<close>

definition ttl_or_default :: "int option \<Rightarrow> int" where
  "ttl_or_default ttl = (case ttl of None \<Rightarrow> defaultTTL | Some t \<Rightarrow> if t = 0 then defaultTTL else t)"

text \<open>\<open>set(key, value, ttl)\<close> returns the table and the manager after the call.\<close>

definition cache_set ::
  "('v \<Rightarrow> string) \<Rightarrow> bool \<Rightarrow> int \<Rightarrow> cacheEntry_table \<Rightarrow> 'v CacheManager \<Rightarrow> string \<Rightarrow> 'v \<Rightarrow> int option
     \<Rightarrow> cacheEntry_table \<times> 'v CacheManager" where
  "cache_set stringify rejects now db c key v ttl =
     (let cacheKey = getKey c key;
          expires = now + ttl_or_default ttl * 1000;
          serializedValue = stringify v;
          c' = c\<lparr>memoryCache := (memoryCache c)(cacheKey \<mapsto> \<lparr>item_value = v, expiresAt = expires\<rparr>)\<rparr>
      in case upsert rejects db cacheKey \<lparr>item_value = serializedValue, expiresAt = expires\<rparr> of
           Inl error \<Rightarrow> (db, c')
         | Inr db' \<Rightarrow> (db', c'))"

definition cache_delete ::
  "bool \<Rightarrow> cacheEntry_table \<Rightarrow> 'v CacheManager \<Rightarrow> string \<Rightarrow> cacheEntry_table \<times> 'v CacheManager" where
  "cache_delete rejects db c key =
     (let cacheKey = getKey c key;
          c' = c\<lparr>memoryCache := (memoryCache c)(cacheKey := None)\<rparr>
      in case delete_row rejects db cacheKey of
           Inl error \<Rightarrow> (db, c')
         | Inr db' \<Rightarrow> (db', c'))"

definition cache_clear ::
  "bool \<Rightarrow> cacheEntry_table \<Rightarrow> 'v CacheManager \<Rightarrow> cacheEntry_table \<times> 'v CacheManager" where
  "cache_clear rejects db c =
     (let c' = c\<lparr>memoryCache := Map.empty\<rparr>
      in case deleteMany rejects (\<lambda>r. True) db of
           Inl error \<Rightarrow> (db, c')
         | Inr db' \<Rightarrow> (db', c'))"

definition cleanExpired ::
  "bool \<Rightarrow> int \<Rightarrow> int \<Rightarrow> cacheEntry_table \<Rightarrow> 'v CacheManager \<Rightarrow> cacheEntry_table \<times> 'v CacheManager" where
  "cleanExpired rejects now now' db c =
     (let c' = c\<lparr>memoryCache :=
                  (\<lambda>k. case memoryCache c k of
                          None \<Rightarrow> None
                        | Some item \<Rightarrow> if expiresAt item \<le> now then None else Some item)\<rparr>
      in case deleteMany rejects (\<lambda>r. expiresAt r \<le> now') db of
           Inl error \<Rightarrow> (db, c')
         | Inr db' \<Rightarrow> (db', c'))"

text \<open>\<open>set(key, value, ttl)\<close> followed by \<open>get(key)\<close> on the same manager: what the \<open>get\<close>
  returns. \<open>rs\<close> and \<open>now\<close> belong to the \<open>set\<close>, \<open>rg\<close>, \<open>now1\<close> and \<open>now2\<close> to the
  \<open>get\<close>.\<close>

definition set_then_get ::
  "(string \<Rightarrow> 'v option) \<Rightarrow> ('v \<Rightarrow> string) \<Rightarrow> bool \<Rightarrow> int \<Rightarrow> bool \<Rightarrow> int \<Rightarrow> int
     \<Rightarrow> cacheEntry_table \<Rightarrow> 'v CacheManager \<Rightarrow> string \<Rightarrow> 'v \<Rightarrow> int option \<Rightarrow> 'v option" where
  "set_then_get parse stringify rs now rg now1 now2 db c key v ttl =
     (let (db', c') = cache_set stringify rs now db c key v ttl
      in fst (cache_get parse rg now1 now2 db' c' key))"

subsection \<open>Two managers on one table\<close>

text \<open>
  A call of one of the five operations, with the clock readings and the backend's verdict
  that it meets. \<open>run\<close> lets two managers, \<open>Mine\<close> and \<open>Other\<close>, perform a sequence of calls
  on a shared \<open>CacheEntry\<close> table and collects what the \<open>get\<close> calls of \<open>Mine\<close> return.
\<close>

datatype 'v cache_op =
    Get string bool int int
  | Set string 'v "int option" bool int
  | Delete string bool
  | Clear bool
  | CleanExpired bool int int

datatype caller = Mine | Other

fun apply_op ::
  "(string \<Rightarrow> 'v option) \<Rightarrow> ('v \<Rightarrow> string) \<Rightarrow> 'v cache_op \<Rightarrow> cacheEntry_table \<Rightarrow> 'v CacheManager
     \<Rightarrow> 'v option list \<times> cacheEntry_table \<times> 'v CacheManager" where
  "apply_op parse stringify (Get key rejects now now') db c =
     (let (r, c') = cache_get parse rejects now now' db c key in ([r], db, c'))"
| "apply_op parse stringify (Set key v ttl rejects now) db c =
     (let (db', c') = cache_set stringify rejects now db c key v ttl in ([], db', c'))"
| "apply_op parse stringify (Delete key rejects) db c =
     (let (db', c') = cache_delete rejects db c key in ([], db', c'))"
| "apply_op parse stringify (Clear rejects) db c =
     (let (db', c') = cache_clear rejects db c in ([], db', c'))"
| "apply_op parse stringify (CleanExpired rejects now now') db c =
     (let (db', c') = cleanExpired rejects now now' db c in ([], db', c'))"

fun run ::
  "(string \<Rightarrow> 'v option) \<Rightarrow> ('v \<Rightarrow> string) \<Rightarrow> (caller \<times> 'v cache_op) list
     \<Rightarrow> cacheEntry_table \<Rightarrow> 'v CacheManager \<Rightarrow> 'v CacheManager
     \<Rightarrow> 'v option list \<times> cacheEntry_table \<times> 'v CacheManager \<times> 'v CacheManager" where
  "run parse stringify [] db mine other = ([], db, mine, other)"
| "run parse stringify ((Mine, op) # ops) db mine other =
     (let (seen, db', mine') = apply_op parse stringify op db mine;
          (rest, db'', mine'', other'') = run parse stringify ops db' mine' other
      in (seen @ rest, db'', mine'', other''))"
| "run parse stringify ((Other, op) # ops) db mine other =
     (let (seen, db', other') = apply_op parse stringify op db other;
          (rest, db'', mine'', other'') = run parse stringify ops db' mine other'
      in (rest, db'', mine'', other''))"

text \<open>The clock readings of a call, in the order in which the call takes them.\<close>

fun clocks :: "'v cache_op \<Rightarrow> int list" where
  "clocks (Get key rejects now now') = [now, now']"
| "clocks (Set key v ttl rejects now) = [now]"
| "clocks (Delete key rejects) = []"
| "clocks (Clear rejects) = []"
| "clocks (CleanExpired rejects now now') = [now, now']"

fun is_Clear :: "'v cache_op \<Rightarrow> bool" where
  "is_Clear (Clear rejects) = True"
| "is_Clear _ = False"

text \<open>
  A key is owned by the prefix \<open>p\<close> when it starts with \<open>p\<close> and a colon, as the keys that
  \<open>getKey\<close> builds for a manager with that prefix do. A plain prefix is non-empty and has no
  colon in it.
\<close>

definition owned :: "string \<Rightarrow> string \<Rightarrow> bool" where
  "owned p key = (take (Suc (length p)) key = p @ '':'')"

definition plain_prefix :: "string \<Rightarrow> bool" where
  "plain_prefix p = (p \<noteq> [] \<and> CHR '':'' \<notin> set p)"


text \<open>The calls of \<open>Mine\<close> in a sequence; no \<open>clear()\<close> by \<open>Other\<close>; the clock readings
  of a sequence in the order in which they are taken.\<close>

fun is_CleanExpired :: "'v cache_op \<Rightarrow> bool" where
  "is_CleanExpired (CleanExpired rejects now now') = True"
| "is_CleanExpired _ = False"

definition mine_only :: "(caller \<times> 'v cache_op) list \<Rightarrow> (caller \<times> 'v cache_op) list" where
  "mine_only ops = filter (\<lambda>(w, op). w = Mine) ops"

definition other_never_clears :: "(caller \<times> 'v cache_op) list \<Rightarrow> bool" where
  "other_never_clears ops = list_all (\<lambda>(w, op). w = Mine \<or> \<not> is_Clear op) ops"

definition all_clocks :: "(caller \<times> 'v cache_op) list \<Rightarrow> int list" where
  "all_clocks ops = concat (map (\<lambda>(w, op). clocks op) ops)"


text \<open>
  Two tables agree on the keys owned by \<open>p\<close> up to rows expired by \<open>T\<close>: on each such key
  they hold the same row, or the left one holds none and the right one a row that had
  expired at \<open>T\<close>.
\<close>

definition agree :: "int \<Rightarrow> string \<Rightarrow> cacheEntry_table \<Rightarrow> cacheEntry_table \<Rightarrow> bool" where
  "agree T p dbL dbR =
     (\<forall>key. owned p key \<longrightarrow>
        dbL key = dbR key \<or> (dbL key = None \<and> (\<exists>r. dbR key = Some r \<and> expiresAt r \<le> T)))"


section \<open>API keys (src/utils/api-key.ts)\<close>

text \<open>
  A row of the \<open>ApiKey\<close> table, without its unique column \<open>key\<close>, by which the table is
  keyed here. Of a \<open>RequestLog\<close> row the manager reads \<open>apiKey\<close> and \<open>createdAt\<close>.
\<close>

record apiKey_row =
  row_id :: string
  name :: string
  tier :: tier
  requestLimit :: int
  requestCount :: int
  isActive :: bool
  lastUsedAt :: "int option"

type_synonym apiKey_table = "string \<rightharpoonup> apiKey_row"

record requestLog_row =
  log_apiKey :: "string option"
  createdAt :: int

text \<open>\<open>requestLog.count({ where })\<close>.\<close>

definition count_rows :: "bool \<Rightarrow> ('r \<Rightarrow> bool) \<Rightarrow> 'r list \<Rightarrow> db_error + int" where
  "count_rows rejects P rows = (if rejects then Inl PrismaError else Inr (int (length (filter P rows))))"

text \<open>\<open>apiKey.update({ where: { key }, data })\<close> rejects when there is no such row.\<close>

definition update_row ::
  "bool \<Rightarrow> ('k \<rightharpoonup> 'r) \<Rightarrow> 'k \<Rightarrow> ('r \<Rightarrow> 'r) \<Rightarrow> db_error + ('k \<rightharpoonup> 'r)" where
  "update_row rejects tbl k f =
     (case tbl k of
        None \<Rightarrow> Inl PrismaError
      | Some r \<Rightarrow> if rejects then Inl PrismaError else Inr (tbl(k \<mapsto> f r)))"

text \<open>\<open>apiKey.update({ where: { id }, data })\<close>, for the \<open>id\<close> of a row that was just read:
  the rows with that \<open>id\<close> are updated.\<close>

definition update_where_id ::
  "bool \<Rightarrow> apiKey_table \<Rightarrow> string \<Rightarrow> (apiKey_row \<Rightarrow> apiKey_row) \<Rightarrow> db_error + apiKey_table" where
  "update_where_id rejects tbl i f =
     (if rejects then Inl PrismaError
      else Inr (\<lambda>k. case tbl k of None \<Rightarrow> None | Some r \<Rightarrow> if row_id r = i then Some (f r) else Some r))"

text \<open>\<open>apiKey.create({ data })\<close> rejects a second row with the same \<open>key\<close>.\<close>

definition create_row :: "bool \<Rightarrow> ('k \<rightharpoonup> 'r) \<Rightarrow> 'k \<Rightarrow> 'r \<Rightarrow> db_error + ('k \<rightharpoonup> 'r)" where
  "create_row rejects tbl k r =
     (if rejects \<or> tbl k \<noteq> None then Inl PrismaError else Inr (tbl(k \<mapsto> r)))"

text \<open>
  \<open>createApiKey(name, tier)\<close>: \<open>uid\<close> is the result of \<open>createUniqueId()\<close>, \<open>new_id\<close> the
  \<open>id\<close> the table gives the row. The call is not guarded: a rejection reaches the caller.
\<close>

definition createApiKey ::
  "bool \<Rightarrow> string \<Rightarrow> string \<Rightarrow> apiKey_table \<Rightarrow> string \<Rightarrow> tier
     \<Rightarrow> db_error + (string \<times> apiKey_row) \<times> apiKey_table" where
  "createApiKey rejects uid new_id keys nm t =
     (let key = ''sk_'' @ uid;
          limit = requests (rateLimitTiers t);
          r = \<lparr>row_id = new_id, name = nm, tier = t, requestLimit = limit, requestCount = 0,
               isActive = True, lastUsedAt = None\<rparr>
      in case create_row rejects keys key r of
           Inl error \<Rightarrow> Inl error
         | Inr keys' \<Rightarrow> Inr ((key, r), keys'))"

text \<open>The result of \<open>validateApiKey\<close>: \<open>{ isValid, apiKey?: { id, tier, requestLimit,
  requestCount, isActive } }\<close>.\<close>

record validated_key =
  v_id :: string
  v_tier :: tier
  v_requestLimit :: int
  v_requestCount :: int
  v_isActive :: bool

record validation =
  isValid :: bool
  apiKey :: "validated_key option"

definition invalid :: validation where
  "invalid = \<lparr>isValid = False, apiKey = None\<rparr>"

text \<open>The number that the count of the key's requests since \<open>oneHourAgo\<close> returns when the
  table answers.\<close>

definition recentRequests_of :: "int \<Rightarrow> requestLog_row list \<Rightarrow> string \<Rightarrow> int" where
  "recentRequests_of now logs key =
     int (length (filter (\<lambda>r. log_apiKey r = Some key \<and> createdAt r \<ge> now - 60 * 60 * 1000) logs))"

text \<open>
  \<open>validateApiKey(key)\<close>: \<open>rf\<close>, \<open>rc\<close> and \<open>ru\<close> say whether the table rejects the lookup, the
  count and the update; \<open>now\<close> is the clock at \<open>oneHourAgo\<close>, \<open>now'\<close> the clock at
  \<open>lastUsedAt\<close>. The \<open>catch\<close> around the three calls returns \<open>{ isValid: false }\<close>.
\<close>

definition validateApiKey ::
  "bool \<Rightarrow> bool \<Rightarrow> bool \<Rightarrow> int \<Rightarrow> int \<Rightarrow> apiKey_table \<Rightarrow> requestLog_row list \<Rightarrow> string
     \<Rightarrow> validation \<times> apiKey_table" where
  "validateApiKey rf rc ru now now' keys logs key =
     (case findUnique rf keys key of
        Inl error \<Rightarrow> (invalid, keys)
      | Inr None \<Rightarrow> (invalid, keys)
      | Inr (Some k) \<Rightarrow>
          if \<not> isActive k then (invalid, keys)
          else
            let oneHourAgo = now - 60 * 60 * 1000
            in case count_rows rc (\<lambda>r. log_apiKey r = Some key \<and> createdAt r \<ge> oneHourAgo) logs of
                 Inl error \<Rightarrow> (invalid, keys)
               | Inr recentRequests \<Rightarrow>
                   if recentRequests \<ge> requestLimit k then (invalid, keys)
                   else
                     (case update_where_id ru keys (row_id k) (\<lambda>r. r\<lparr>lastUsedAt := Some now'\<rparr>) of
                        Inl error \<Rightarrow> (invalid, keys)
                      | Inr keys' \<Rightarrow>
                          (\<lparr>isValid = True,
                            apiKey = Some \<lparr>v_id = row_id k, v_tier = tier k,
                                           v_requestLimit = requestLimit k,
                                           v_requestCount = requestCount k,
                                           v_isActive = isActive k\<rparr>\<rparr>,
                           keys')))"

definition incrementUsage :: "bool \<Rightarrow> int \<Rightarrow> apiKey_table \<Rightarrow> string \<Rightarrow> apiKey_table" where
  "incrementUsage rejects now keys key =
     (case update_row rejects keys key
             (\<lambda>r. r\<lparr>requestCount := requestCount r + 1, lastUsedAt := Some now\<rparr>) of
        Inl error \<Rightarrow> keys
      | Inr keys' \<Rightarrow> keys')"

definition deactivateApiKey :: "bool \<Rightarrow> apiKey_table \<Rightarrow> string \<Rightarrow> bool \<times> apiKey_table" where
  "deactivateApiKey rejects keys key =
     (case update_row rejects keys key (\<lambda>r. r\<lparr>isActive := False\<rparr>) of
        Inl error \<Rightarrow> (False, keys)
      | Inr keys' \<Rightarrow> (True, keys'))"

text \<open>The calls of the manager that write to the \<open>ApiKey\<close> table, each with the backend's
  verdicts and the clock readings it meets, and a sequence of such calls.\<close>

datatype manager_call =
    Create bool string string string tier
  | Validate bool bool bool int int "requestLog_row list" string
  | IncrementUsage bool int string
  | Deactivate bool string

fun manager_step :: "manager_call \<Rightarrow> apiKey_table \<Rightarrow> apiKey_table" where
  "manager_step (Create rejects uid new_id nm t) keys =
     (case createApiKey rejects uid new_id keys nm t of Inl error \<Rightarrow> keys | Inr (_, keys') \<Rightarrow> keys')"
| "manager_step (Validate rf rc ru now now' logs key) keys =
     snd (validateApiKey rf rc ru now now' keys logs key)"
| "manager_step (IncrementUsage rejects now key) keys = incrementUsage rejects now keys key"
| "manager_step (Deactivate rejects key) keys = snd (deactivateApiKey rejects keys key)"

fun manager_steps :: "manager_call list \<Rightarrow> apiKey_table \<Rightarrow> apiKey_table" where
  "manager_steps [] keys = keys"
| "manager_steps (call # calls) keys = manager_steps calls (manager_step call keys)"

section \<open>Authentication middleware (application entry file)\<close>


section \<open>Batch endpoint (controllers, POST /batch)\<close>

text \<open>
  Of a \<open>PersianName\<close> row the handler selects \<open>gender\<close>, \<open>enName\<close> and, on request,
  \<open>popularity\<close>. The values cached under \<open>name:...\<close> are objects with \<open>gender\<close>, \<open>enName\<close>
  and possibly \<open>popularity\<close>; the single-name endpoint caches \<open>{ gender: null, enName: null }\<close>
  for a name it did not find, so \<open>gender\<close> may be \<open>null\<close> there.
\<close>

datatype gender = MALE | FEMALE | UNKNOWN

record persianName_row =
  pname :: string
  gender :: gender
  enName :: "string option"
  popularity :: int

record cached_name =
  c_gender :: "gender option"
  c_enName :: "string option"
  c_popularity :: "int option"

record batch_result =
  r_name :: string
  r_gender :: "gender option"
  r_enName :: "string option"
  r_popularity :: "int option"
  confidence :: real

text \<open>\<open>persianName.findFirst({ where: { name: { equals: name } } })\<close>.\<close>

definition findFirst :: "bool \<Rightarrow> persianName_row list \<Rightarrow> string \<Rightarrow> db_error + persianName_row option" where
  "findFirst rejects rows n = (if rejects then Inl PrismaError else Inr (find (\<lambda>r. pname r = n) rows))"

text \<open>
  What one call of \<open>processName\<close> meets: the clock readings of its \<open>cache.get\<close> and
  \<open>cache.set\<close>, and whether the backend rejects its cache read, its \<open>findFirst\<close> and its
  cache write. An item of a batch is a name with what its call meets.
\<close>

record item_env =
  t_memory :: int
  t_row :: int
  cache_read_rejects :: bool
  find_rejects :: bool
  t_set :: int
  cache_write_rejects :: bool

type_synonym batch_item = "string \<times> item_env"

text \<open>The three results of \<open>processName\<close>: from the cache, from the table, and from the
  \<open>catch\<close>. \<open>x || null\<close> turns the empty string into \<open>null\<close>.\<close>

definition hit_result :: "bool \<Rightarrow> string \<Rightarrow> cached_name \<Rightarrow> batch_result" where
  "hit_result includePopularity n cached =
     \<lparr>r_name = n, r_gender = c_gender cached, r_enName = c_enName cached,
      r_popularity = (if includePopularity then c_popularity cached else None),
      confidence = 1.0\<rparr>"

definition or_null :: "string option \<Rightarrow> string option" where
  "or_null s = (if truthy s then s else None)"

definition table_result :: "bool \<Rightarrow> string \<Rightarrow> persianName_row option \<Rightarrow> batch_result" where
  "table_result includePopularity n data =
     \<lparr>r_name = n,
      r_gender = (case data of None \<Rightarrow> None | Some d \<Rightarrow> Some (gender d)),
      r_enName = (case data of None \<Rightarrow> None | Some d \<Rightarrow> or_null (enName d)),
      r_popularity = (if includePopularity
                      then Some (case data of None \<Rightarrow> 0 | Some d \<Rightarrow> popularity d) else None),
      confidence = (case data of None \<Rightarrow> 0.0 | Some d \<Rightarrow> 0.95)\<rparr>"

definition catch_result :: "bool \<Rightarrow> string \<Rightarrow> batch_result" where
  "catch_result includePopularity n =
     \<lparr>r_name = n, r_gender = None, r_enName = None,
      r_popularity = (if includePopularity then Some 0 else None),
      confidence = 0.0\<rparr>"

text \<open>
  \<open>Promise.all(batch.map(processName))\<close> starts the calls in order; each runs up to its
  first \<open>await\<close>, so every memory check of a sub-batch sees the memory tier as the sub-batch
  found it. The model takes the table's answers in the order of the requests: first the
  cache reads of the sub-batch (\<open>get_phase\<close>), then its \<open>findFirst\<close> calls with the cache
  writes that follow them (\<open>find_phase\<close>). Logging and the headers that repeat fields of
  the body are left out.
\<close>

definition get_item ::
  "(string \<Rightarrow> cached_name option) \<Rightarrow> cached_name CacheManager \<Rightarrow> cacheEntry_table \<Rightarrow> batch_item
     \<Rightarrow> cached_name CacheManager \<Rightarrow> cached_name option \<times> cached_name CacheManager" where
  "get_item parse c0 db it c =
     (let cacheKey = getKey c0 (''name:'' @ fst it)
      in case check_memory (t_memory (snd it)) c0 cacheKey of
           Some v \<Rightarrow> (Some v, c)
         | None \<Rightarrow>
             check_database parse (cache_read_rejects (snd it)) (t_row (snd it)) db c cacheKey)"

fun get_phase ::
  "(string \<Rightarrow> cached_name option) \<Rightarrow> cached_name CacheManager \<Rightarrow> cacheEntry_table \<Rightarrow> batch_item list
     \<Rightarrow> cached_name CacheManager \<Rightarrow> cached_name option list \<times> cached_name CacheManager" where
  "get_phase parse c0 db [] c = ([], c)"
| "get_phase parse c0 db (it # items) c =
     (let (cached, c') = get_item parse c0 db it c;
          (rest, c'') = get_phase parse c0 db items c'
      in (cached # rest, c''))"

text \<open>The rest of \<open>processName\<close> for an item, given what its \<open>cache.get\<close> returned.\<close>

definition find_item ::
  "(cached_name \<Rightarrow> string) \<Rightarrow> bool \<Rightarrow> persianName_row list \<Rightarrow> batch_item \<Rightarrow> cached_name option
     \<Rightarrow> cacheEntry_table \<Rightarrow> cached_name CacheManager
     \<Rightarrow> batch_result \<times> cacheEntry_table \<times> cached_name CacheManager" where
  "find_item stringify includePopularity rows it cached db c =
     (case cached of
        Some v \<Rightarrow> (hit_result includePopularity (fst it) v, db, c)
      | None \<Rightarrow>
          (case findFirst (find_rejects (snd it)) rows (fst it) of
             Inl error \<Rightarrow> (catch_result includePopularity (fst it), db, c)
           | Inr data \<Rightarrow>
               (table_result includePopularity (fst it) data,
                (case data of
                   None \<Rightarrow> (db, c)
                 | Some d \<Rightarrow>
                     cache_set stringify (cache_write_rejects (snd it)) (t_set (snd it)) db c
                       (''name:'' @ fst it)
                       \<lparr>c_gender = Some (gender d), c_enName = enName d,
                        c_popularity = (if includePopularity then Some (popularity d) else None)\<rparr>
                       (Some 3600)))))"

fun find_phase ::
  "(cached_name \<Rightarrow> string) \<Rightarrow> bool \<Rightarrow> persianName_row list \<Rightarrow> (batch_item \<times> cached_name option) list
     \<Rightarrow> cacheEntry_table \<Rightarrow> cached_name CacheManager
     \<Rightarrow> batch_result list \<times> cacheEntry_table \<times> cached_name CacheManager" where
  "find_phase stringify includePopularity rows [] db c = ([], db, c)"
| "find_phase stringify includePopularity rows ((it, cached) # items) db c =
     (let (result, db1, c1) = find_item stringify includePopularity rows it cached db c;
          (rest, db', c') = find_phase stringify includePopularity rows items db1 c1
      in (result # rest, db', c'))"

definition process_batch ::
  "(string \<Rightarrow> cached_name option) \<Rightarrow> (cached_name \<Rightarrow> string) \<Rightarrow> bool \<Rightarrow> persianName_row list
     \<Rightarrow> batch_item list \<Rightarrow> cacheEntry_table \<Rightarrow> cached_name CacheManager
     \<Rightarrow> batch_result list \<times> cacheEntry_table \<times> cached_name CacheManager" where
  "process_batch parse stringify includePopularity rows batch db c =
     (let (cached, c') = get_phase parse c db batch c
      in find_phase stringify includePopularity rows (zip batch cached) db c')"

definition batchSize :: nat where
  "batchSize = 10"

text \<open>The loop \<open>for (let i = 0; i < names.length; i += batchSize)\<close> with its accumulators
  \<open>results\<close> and \<open>errorCount\<close>.\<close>

function batch_loop ::
  "(string \<Rightarrow> cached_name option) \<Rightarrow> (cached_name \<Rightarrow> string) \<Rightarrow> bool \<Rightarrow> persianName_row list
     \<Rightarrow> batch_item list \<Rightarrow> nat \<Rightarrow> batch_result list \<Rightarrow> int \<Rightarrow> cacheEntry_table \<Rightarrow> cached_name CacheManager
     \<Rightarrow> (batch_result list \<times> int) \<times> cacheEntry_table \<times> cached_name CacheManager" where
  "batch_loop parse stringify includePopularity rows names i results errorCount db c =
     (if i < length names then
        let batch = take batchSize (drop i names);
            (batchResults, db', c') = process_batch parse stringify includePopularity rows batch db c;
            errorCount' = errorCount + int (length (filter (\<lambda>result. confidence result = 0.0) batchResults))
        in batch_loop parse stringify includePopularity rows names (i + batchSize)
             (results @ batchResults) errorCount' db' c'
      else ((results, errorCount), db, c))"
  by pat_completeness auto
termination
  by (relation "measure (\<lambda>(parse, stringify, includePopularity, rows, names, i, rest). length names - i)")
    (auto simp: batchSize_def)

text \<open>
  The sub-batches of a list of names, ten names each but for the last, and the processing
  of a list of sub-batches one after the other.
\<close>

function sub_batches :: "'a list \<Rightarrow> 'a list list" where
  "sub_batches xs = (if xs = [] then [] else take batchSize xs # sub_batches (drop batchSize xs))"
  by pat_completeness auto
termination
  by (relation "measure length") (auto simp: batchSize_def)

fun run_batches ::
  "(string \<Rightarrow> cached_name option) \<Rightarrow> (cached_name \<Rightarrow> string) \<Rightarrow> bool \<Rightarrow> persianName_row list
     \<Rightarrow> batch_item list list \<Rightarrow> cacheEntry_table \<Rightarrow> cached_name CacheManager
     \<Rightarrow> batch_result list \<times> cacheEntry_table \<times> cached_name CacheManager" where
  "run_batches parse stringify includePopularity rows [] db c = ([], db, c)"
| "run_batches parse stringify includePopularity rows (batch # batches) db c =
     (let (batchResults, db', c') = process_batch parse stringify includePopularity rows batch db c;
          (rest, db'', c'') = run_batches parse stringify includePopularity rows batches db' c'
      in (batchResults @ rest, db'', c''))"

record batch_body =
  results :: "batch_result list"
  processedCount :: int
  errorCount :: int
  processingTime :: int

datatype batch_response = BatchError int string int | BatchOk batch_body

text \<open>The handler, after the schema validation: \<open>t_start\<close> and \<open>t_end\<close> are the clock
  readings around the loop. \<open>processName\<close> catches what its table calls throw and the
  cache calls do not throw, so the outer \<open>catch\<close> that answers 500 has no case here.\<close>

definition batch_handler ::
  "(string \<Rightarrow> cached_name option) \<Rightarrow> (cached_name \<Rightarrow> string) \<Rightarrow> tier \<Rightarrow> bool \<Rightarrow> persianName_row list
     \<Rightarrow> int \<Rightarrow> int \<Rightarrow> batch_item list \<Rightarrow> cacheEntry_table \<Rightarrow> cached_name CacheManager
     \<Rightarrow> batch_response \<times> cacheEntry_table \<times> cached_name CacheManager" where
  "batch_handler parse stringify t includePopularity rows t_start t_end names db c =
     (if t = FREE then
        (BatchError 40303 ''Batch processing requires a paid API key'' 403, db, c)
      else if names = [] then
        (BatchError 40001 ''Names array cannot be empty'' 400, db, c)
      else if length names > 100 then
        (BatchError 40001 ''Maximum 100 names allowed per batch request'' 400, db, c)
      else
        let ((rs, ec), db', c') =
              batch_loop parse stringify includePopularity rows names 0 [] 0 db c
        in (BatchOk \<lparr>results = rs, processedCount = int (length names), errorCount = ec,
                     processingTime = t_end - t_start\<rparr>, db', c'))"

text \<open>The origin lookup of an item fails when the table rejects its \<open>findFirst\<close> or has no
  row of that name.\<close>

definition origin_fails :: "persianName_row list \<Rightarrow> batch_item \<Rightarrow> bool" where
  "origin_fails rows it = (find_rejects (snd it) \<or> find (\<lambda>r. pname r = fst it) rows = None)"

text \<open>No entry, live or expired, for the name of an item in either tier.\<close>

definition uncached :: "cacheEntry_table \<Rightarrow> cached_name CacheManager \<Rightarrow> batch_item \<Rightarrow> bool" where
  "uncached db c it =
     (memoryCache c (getKey c (''name:'' @ fst it)) = None \<and> db (getKey c (''name:'' @ fst it)) = None)"

text \<open>The result that the claim describes for an item whose lookup failed.\<close>

definition degraded :: "batch_result \<Rightarrow> bool" where
  "degraded r = (confidence r = 0 \<and> r_gender r = None \<and> r_enName r = None)"

text \<open>
  Two notions for the proofs about a batch. \<open>clean F cr db c\<close>: the manager \<open>c\<close> has the
  prefix of \<open>cr\<close>, and neither its memory tier nor the table has an entry for a name in \<open>F\<close>.
  \<open>item_ok rows it r\<close>: \<open>r\<close> is a result for the item \<open>it\<close>, of confidence 0 exactly when the
  origin lookup of \<open>it\<close> fails, and then the null result.
\<close>

definition clean :: "string set \<Rightarrow> cached_name CacheManager \<Rightarrow> cacheEntry_table \<Rightarrow> cached_name CacheManager \<Rightarrow> bool" where
  "clean F cr db c =
     (prefix c = prefix cr
      \<and> (\<forall>n\<in>F. memoryCache c (getKey cr (''name:'' @ n)) = None \<and> db (getKey cr (''name:'' @ n)) = None))"

definition item_ok :: "persianName_row list \<Rightarrow> batch_item \<Rightarrow> batch_result \<Rightarrow> bool" where
  "item_ok rows it r =
     (r_name r = fst it \<and> (confidence r = 0 \<longleftrightarrow> origin_fails rows it)
      \<and> (origin_fails rows it \<longrightarrow> degraded r))"


section \<open>Concrete inputs\<close>

text \<open>\<open>increment_times n\<close> is \<open>n\<close> successive calls of \<open>increment\<close> for one key, all at the
  clock reading \<open>now\<close>.\<close>

fun increment_times :: "nat \<Rightarrow> int \<Rightarrow> hits \<Rightarrow> string \<Rightarrow> hits" where
  "increment_times 0 now hs key = hs"
| "increment_times (Suc n) now hs key = increment_times n now (snd (increment now hs key)) key"

text \<open>A request that carries a valid BASIC-tier key, as it leaves the authentication
  middleware.\<close>

definition basic_caller :: ctx where
  "basic_caller =
     \<lparr>req_x_api_key = Some ''sk_basic'', req_cf_connecting_ip = None,
      req_x_forwarded_for = None, var_rateLimitTier = BASIC, var_apiKey = Some ''sk_basic'',
      rateLimitMax = None, res_headers = []\<rparr>"

text \<open>The manager the application creates, \<open>new CacheManager(db, { prefix: "shenasa" })\<close>,
  before its first call; here it stores strings, serialised as themselves.\<close>

definition shenasa_cache :: "string CacheManager" where
  "shenasa_cache = \<lparr>memoryCache = Map.empty, prefix = Some ''shenasa''\<rparr>"

text \<open>An \<open>ApiKey\<close> table with an active PREMIUM key, a deactivated key and an active key with
  a limit of two requests, a request log in which the last of these has three requests within
  the hour before 5000000, and a request as it reaches the authentication middleware.\<close>

definition live_row :: apiKey_row where
  "live_row = \<lparr>row_id = ''id1'', name = ''acme'', tier = PREMIUM, requestLimit = 10000,
      requestCount = 7, isActive = True, lastUsedAt = None\<rparr>"

definition off_row :: apiKey_row where
  "off_row = \<lparr>row_id = ''id2'', name = ''old'', tier = BASIC, requestLimit = 1000,
      requestCount = 0, isActive = False, lastUsedAt = None\<rparr>"

definition small_row :: apiKey_row where
  "small_row = \<lparr>row_id = ''id3'', name = ''tiny'', tier = FREE, requestLimit = 2,
      requestCount = 3, isActive = True, lastUsedAt = None\<rparr>"

definition sample_keys :: apiKey_table where
  "sample_keys = [''sk_live'' \<mapsto> live_row, ''sk_off'' \<mapsto> off_row, ''sk_small'' \<mapsto> small_row]"

definition sample_logs :: "requestLog_row list" where
  "sample_logs =
     [\<lparr>log_apiKey = Some ''sk_small'', createdAt = 4000000\<rparr>,
      \<lparr>log_apiKey = Some ''sk_small'', createdAt = 4000100\<rparr>,
      \<lparr>log_apiKey = Some ''sk_small'', createdAt = 4000200\<rparr>,
      \<lparr>log_apiKey = Some ''sk_live'', createdAt = 1000\<rparr>,
      \<lparr>log_apiKey = None, createdAt = 4000300\<rparr>]"



text \<open>A second manager on the same table, a manager whose prefix contains a colon, and a table
  with one live row under the application's prefix.\<close>

definition tenant_cache :: "string CacheManager" where
  "tenant_cache = \<lparr>memoryCache = Map.empty, prefix = Some ''tenant''\<rparr>"

definition shenasa_prod_cache :: "string CacheManager" where
  "shenasa_prod_cache = \<lparr>memoryCache = Map.empty, prefix = Some ''shenasa:prod''\<rparr>"

definition stored_row :: cacheEntry_table where
  "stored_row = [''shenasa:k'' \<mapsto> \<lparr>item_value = ''v'', expiresAt = 3600000\<rparr>]"


text \<open>A \<open>PersianName\<close> table with three names and a batch of five: three of its names are in
  the table, one is not, and for one the table rejects the lookup.\<close>

definition calm :: item_env where
  "calm = \<lparr>t_memory = 0, t_row = 0, cache_read_rejects = False, find_rejects = False,
            t_set = 0, cache_write_rejects = False\<rparr>"

definition sample_rows :: "persianName_row list" where
  "sample_rows =
     [\<lparr>pname = ''ali'', gender = MALE, enName = Some ''ali'', popularity = 90\<rparr>,
      \<lparr>pname = ''sara'', gender = FEMALE, enName = Some ''sara'', popularity = 80\<rparr>,
      \<lparr>pname = ''reza'', gender = MALE, enName = None, popularity = 70\<rparr>]"

definition sample_batch :: "batch_item list" where
  "sample_batch =
     [(''ali'', calm), (''zzz'', calm), (''sara'', calm),
      (''reza2'', calm\<lparr>find_rejects := True\<rparr>), (''reza'', calm)]"

definition name_cache :: "cached_name CacheManager" where
  "name_cache = \<lparr>memoryCache = Map.empty, prefix = Some ''shenasa''\<rparr>"


section \<open>Properties\<close>

subsection \<open>Rate limiter\<close>

lemma increment_times_count:
  "increment_times (Suc n) now Map.empty key key
     = Some \<lparr>count = int (Suc n), resetTime = now + 60000\<rparr>"
proof -
  have step: "hs key = Some \<lparr>count = m, resetTime = now + 60000\<rparr> \<Longrightarrow>
      increment_times k now hs key key = Some \<lparr>count = m + int k, resetTime = now + 60000\<rparr>"
    for k m hs
  proof (induction k arbitrary: m hs)
    case 0
    then show ?case by simp
  next
    case (Suc k)
    have "snd (increment now hs key) key = Some \<lparr>count = m + 1, resetTime = now + 60000\<rparr>"
      using Suc.prems by (simp add: increment_def)
    from Suc.IH [of "snd (increment now hs key)" "m + 1", OF this]
    show ?case by (simp add: algebra_simps)
  qed
  have "snd (increment now Map.empty key) key = Some \<lparr>count = 1, resetTime = now + 60000\<rparr>"
    by (simp add: increment_def)
  from step [of "snd (increment now Map.empty key)" 1 n, OF this]
  show ?thesis by (simp add: algebra_simps)
qed

text \<open>The limiter installed by the application turns a request away exactly when the
  counter exceeds 100, whatever the caller's tier.\<close>

lemma app_rateLimiter_rejects_iff:
  "(\<exists>code msg. fst (app_rateLimiter now now' hs c) = Reply code msg 429)
     \<longleftrightarrow> totalHits (fst (increment now hs (fst (app_keyGenerator c)))) > 100"
  by (simp add: app_rateLimiter_def createRateLimiter_def app_rateLimitConfig_def Let_def
      split: prod.splits)

lemma app_rateLimiter_admits_iff:
  "(\<exists>c'. fst (app_rateLimiter now now' hs c) = Next c')
     \<longleftrightarrow> totalHits (fst (increment now hs (fst (app_keyGenerator c)))) \<le> 100"
  by (simp add: app_rateLimiter_def createRateLimiter_def app_rateLimitConfig_def Let_def
      split: prod.splits)

text \<open>
  C1. The claim: the quota \<open>max\<close> of an admission equals the caller's tier threshold
  (FREE 100, BASIC 1000, PREMIUM 10000, ENTERPRISE 100000), and a request is rejected exactly
  when \<open>totalHits\<close> exceeds that threshold.
  The code at a BASIC caller's 101st request within one window: the key generator stores the
  tier threshold 1000 in \<open>rateLimitMax\<close>, which nothing reads; the limiter compares with
  \<open>config.max = 100\<close>, announces the limit 100 and answers 429, although 101 does not exceed
  the BASIC threshold.
\<close>

theorem C1_basic_caller_rejected_at_101:
  "fst (app_rateLimiter 1000 1000 (increment_times 100 0 Map.empty ''api:sk_basic'') basic_caller)
     = Reply 42901 ''Too many requests. Please try again later.'' 429
   \<and> totalHits (fst (increment 1000 (increment_times 100 0 Map.empty ''api:sk_basic'')
         ''api:sk_basic'')) = 101
   \<and> requests (rateLimitTiers (var_rateLimitTier basic_caller)) = 1000
   \<and> rateLimitMax (fst (snd (app_rateLimiter 1000 1000
         (increment_times 100 0 Map.empty ''api:sk_basic'') basic_caller))) = Some 1000
   \<and> map_of (res_headers (fst (snd (app_rateLimiter 1000 1000
         (increment_times 100 0 Map.empty ''api:sk_basic'') basic_caller)))) ''X-RateLimit-Limit''
       = Some 100"
proof -
  have hs: "increment_times 100 0 Map.empty ''api:sk_basic'' ''api:sk_basic''
      = Some \<lparr>count = 100, resetTime = 60000\<rparr>"
    using increment_times_count [of 99 0 "''api:sk_basic''"] by simp
  show ?thesis
    by (simp add: hs app_rateLimiter_def createRateLimiter_def app_rateLimitConfig_def
        basic_caller_def app_keyGenerator_def increment_def header_def ceil_div_1000_def Let_def)
qed

text \<open>
  C2. The claim: \<open>increment\<close> counts in a one-hour window; a counter is reset to 1 only when
  there is none or its window has elapsed, and is incremented otherwise.
  The code: the window that \<open>increment\<close> opens lasts 60000 ms. A first call at time 0 and a
  second call one minute later, 59 minutes before the hour is over, both return
  \<open>totalHits = 1\<close>; within a one-hour window the second call would return 2.
\<close>

theorem C2_window_is_one_minute:
  "fst (increment 0 Map.empty ''ip:1.2.3.4'') = \<lparr>totalHits = 1, timeToExpire = 60000\<rparr>
   \<and> snd (increment 0 Map.empty ''ip:1.2.3.4'') ''ip:1.2.3.4''
       = Some \<lparr>count = 1, resetTime = 60000\<rparr>
   \<and> (60000::int) < 3600000
   \<and> fst (increment 60000 (snd (increment 0 Map.empty ''ip:1.2.3.4'')) ''ip:1.2.3.4'')
       = \<lparr>totalHits = 1, timeToExpire = 60000\<rparr>"
  by (simp add: increment_def)

text \<open>What \<open>increment\<close> does, for every store, key and clock reading.\<close>

lemma increment_fresh:
  "hs key = None \<or> (\<exists>cur. hs key = Some cur \<and> resetTime cur \<le> now) \<Longrightarrow>
   increment now hs key
     = (\<lparr>totalHits = 1, timeToExpire = 60000\<rparr>,
        hs(key \<mapsto> \<lparr>count = 1, resetTime = now + 60000\<rparr>))"
  by (auto simp: increment_def)

lemma increment_within_window:
  "hs key = Some cur \<Longrightarrow> now < resetTime cur \<Longrightarrow>
   increment now hs key
     = (\<lparr>totalHits = count cur + 1, timeToExpire = resetTime cur - now\<rparr>,
        hs(key \<mapsto> cur\<lparr>count := count cur + 1\<rparr>))"
  by (simp add: increment_def)

lemma increment_other_keys:
  "key' \<noteq> key \<Longrightarrow> snd (increment now hs key) key' = hs key'"
  by (simp add: increment_def split: option.splits)

subsection \<open>Cache: single manager\<close>

lemma getKey_cong: "prefix c' = prefix c \<Longrightarrow> getKey c' key = getKey c key"
  by (simp add: getKey_def)

lemma cache_set_memory:
  "memoryCache (snd (cache_set stringify rejects now db c key v ttl)) (getKey c key)
     = Some \<lparr>item_value = v, expiresAt = now + ttl_or_default ttl * 1000\<rparr>"
  by (simp add: cache_set_def upsert_def Let_def)

lemma cache_set_prefix:
  "prefix (snd (cache_set stringify rejects now db c key v ttl)) = prefix c"
  by (simp add: cache_set_def upsert_def Let_def)

lemma cache_set_db:
  "fst (cache_set stringify False now db c key v ttl)
     = db(getKey c key \<mapsto> \<lparr>item_value = stringify v, expiresAt = now + ttl_or_default ttl * 1000\<rparr>)"
  by (simp add: cache_set_def upsert_def Let_def)


lemma cache_get_memory_hit:
  "memoryCache c (getKey c key) = Some m \<Longrightarrow> now < expiresAt m \<Longrightarrow>
   cache_get parse rejects now now' db c key = (Some (item_value m), c)"
  by (simp add: cache_get_def check_memory_def Let_def)

lemma check_database_hit:
  "check_database parse rejects now' db c cacheKey = (Some v, c') \<Longrightarrow>
   \<exists>r. db cacheKey = Some r \<and> parse (item_value r) = Some v \<and> now' < expiresAt r \<and> \<not> rejects"
  by (auto simp: check_database_def findUnique_def split: if_splits option.splits)


lemma cache_get_hit:
  assumes "fst (cache_get parse rejects now now' db c key) = Some v"
  shows "(\<exists>m. memoryCache c (getKey c key) = Some m \<and> item_value m = v \<and> now < expiresAt m)
       \<or> (\<exists>r. db (getKey c key) = Some r \<and> parse (item_value r) = Some v \<and> now' < expiresAt r)"
proof (cases "\<exists>m. memoryCache c (getKey c key) = Some m \<and> now < expiresAt m")
  case True
  then obtain m where m: "memoryCache c (getKey c key) = Some m" "now < expiresAt m" by blast
  from cache_get_memory_hit [OF m] assms have "item_value m = v" by simp
  with m show ?thesis by blast
next
  case False
  then have "cache_get parse rejects now now' db c key
      = check_database parse rejects now' db c (getKey c key)"
    by (auto simp: cache_get_def check_memory_def Let_def split: option.splits)
  with assms obtain c' where
    "check_database parse rejects now' db c (getKey c key) = (Some v, c')"
    by (metis prod.collapse)
  from check_database_hit [OF this] show ?thesis by blast
qed

lemma set_then_get_live:
  assumes "now1 < now + ttl_or_default ttl * 1000"
  shows "set_then_get parse stringify rs now rg now1 now2 db c key v ttl = Some v"
proof -
  let ?c = "snd (cache_set stringify rs now db c key v ttl)"
  have k: "getKey ?c key = getKey c key"
    by (rule getKey_cong) (rule cache_set_prefix)
  have "memoryCache ?c (getKey ?c key)
      = Some \<lparr>item_value = v, expiresAt = now + ttl_or_default ttl * 1000\<rparr>"
    unfolding k by (rule cache_set_memory)
  from cache_get_memory_hit [OF this, of now1] assms
  show ?thesis by (simp add: set_then_get_def case_prod_unfold)
qed

lemma set_then_get_expired:
  assumes "now + ttl_or_default ttl * 1000 \<le> now1" "now + ttl_or_default ttl * 1000 \<le> now2"
  shows "set_then_get parse stringify False now rg now1 now2 db c key v ttl = None"
proof (rule ccontr)
  let ?db = "fst (cache_set stringify False now db c key v ttl)"
  let ?c = "snd (cache_set stringify False now db c key v ttl)"
  have k: "getKey ?c key = getKey c key"
    by (rule getKey_cong) (rule cache_set_prefix)
  assume "set_then_get parse stringify False now rg now1 now2 db c key v ttl \<noteq> None"
  then obtain w where "fst (cache_get parse rg now1 now2 ?db ?c key) = Some w"
    by (auto simp: set_then_get_def case_prod_unfold Let_def)
  from cache_get_hit [OF this]
  have "(\<exists>m. memoryCache ?c (getKey c key) = Some m \<and> now1 < expiresAt m)
      \<or> (\<exists>r. ?db (getKey c key) = Some r \<and> now2 < expiresAt r)"
    unfolding k by blast
  then show False
    using assms by (auto simp: cache_set_memory cache_set_db)
qed

text \<open>
  C4, as the code has it. A hit of \<open>get\<close> comes from a memory entry that expires after the
  clock reading of the memory check, or from a row that expires after the clock reading of
  the row check; an entry with \<open>expiresAt \<le> now\<close> is never returned, in either tier.
  \<open>set(k, v, -1)\<close> followed by \<open>get(k)\<close>, the clock not running backwards, returns absent
  when the table accepted the write of that \<open>set\<close>.
\<close>

theorem C4_no_expired_hit:
  "(fst (cache_get parse rejects now1 now2 db c key) = Some w \<longrightarrow>
      (\<exists>m. memoryCache c (getKey c key) = Some m \<and> item_value m = w \<and> now1 < expiresAt m)
    \<or> (\<exists>r. db (getKey c key) = Some r \<and> parse (item_value r) = Some w \<and> now2 < expiresAt r))
   \<and> (now \<le> now1 \<and> now1 \<le> now2 \<longrightarrow>
        set_then_get parse stringify False now rejects now1 now2 db c key v (Some (- 1)) = None)"
proof (intro conjI impI)
  assume "fst (cache_get parse rejects now1 now2 db c key) = Some w"
  then show "(\<exists>m. memoryCache c (getKey c key) = Some m \<and> item_value m = w \<and> now1 < expiresAt m)
    \<or> (\<exists>r. db (getKey c key) = Some r \<and> parse (item_value r) = Some w \<and> now2 < expiresAt r)"
    by (rule cache_get_hit)
next
  assume "now \<le> now1 \<and> now1 \<le> now2"
  then show "set_then_get parse stringify False now rejects now1 now2 db c key v (Some (- 1)) = None"
    by (intro set_then_get_expired) (simp_all add: ttl_or_default_def)
qed

theorem C4_no_expired_hit_witness:
  "fst (cache_get Some False 1000 1000 [''shenasa:k'' \<mapsto> \<lparr>item_value = ''old'', expiresAt = 3600000\<rparr>]
          shenasa_cache ''k'') = Some ''old''
   \<and> [''shenasa:k'' \<mapsto> \<lparr>item_value = ''old'', expiresAt = 3600000\<rparr>] (getKey shenasa_cache ''k'')
       = Some \<lparr>item_value = ''old'', expiresAt = 3600000\<rparr>
   \<and> (1000::int) < 3600000
   \<and> (1000::int) \<le> 1000
   \<and> set_then_get Some id False 1000 False 1000 1000 Map.empty shenasa_cache ''k'' ''v'' (Some (- 1))
       = None"
  using C4_no_expired_hit [where parse = Some and rejects = False and ?now1.0 = 1000
      and ?now2.0 = 1000 and c = shenasa_cache and key = "''k''" and w = "''old''" and now = 1000
      and stringify = id and v = "''v''"
      and db = "[''shenasa:k'' \<mapsto> \<lparr>item_value = ''old'', expiresAt = 3600000\<rparr>]"]
    C4_no_expired_hit [where parse = Some and rejects = False and ?now1.0 = 1000
      and ?now2.0 = 1000 and c = shenasa_cache and key = "''k''" and w = "''old''" and now = 1000
      and stringify = id and v = "''v''" and db = Map.empty]
  by (simp add: cache_get_def check_memory_def check_database_def findUnique_def getKey_def shenasa_cache_def)

text \<open>
  C4 as the claim states it fails when the table rejects the write of \<open>set(k, v, -1)\<close> and
  still holds an older, live row for \<open>k\<close>: the \<open>get\<close> that follows returns that row's value.
\<close>

theorem C4_rejected_write_counterexample:
  "set_then_get Some id True 1000 False 1000 1000
     [''shenasa:k'' \<mapsto> \<lparr>item_value = ''old'', expiresAt = 3600000\<rparr>]
     shenasa_cache ''k'' ''v'' (Some (- 1)) = Some ''old''"
  by (simp add: set_then_get_def cache_get_def check_memory_def cache_set_def check_database_def findUnique_def
      upsert_def getKey_def shenasa_cache_def ttl_or_default_def Let_def)





text \<open>
  C10. \<open>set(k, v, 0)\<close>, like \<open>set(k, v)\<close> without a time to live, stores the entry with the
  default of 3600 seconds, and a \<open>get(k)\<close> within the hour that follows returns \<open>v\<close>.
\<close>

theorem C10_zero_ttl_is_default:
  assumes "ttl = Some 0 \<or> ttl = None" and "now \<le> now1" and "now1 < now + 3600000"
  shows "memoryCache (snd (cache_set stringify rs now db c key v ttl)) (getKey c key)
           = Some \<lparr>item_value = v, expiresAt = now + 3600 * 1000\<rparr>
       \<and> set_then_get parse stringify rs now rg now1 now2 db c key v ttl = Some v"
proof -
  have t: "ttl_or_default ttl = 3600"
    using assms(1) by (auto simp: ttl_or_default_def defaultTTL_def)
  show ?thesis
    using set_then_get_live [of now1 now ttl] assms(3)
    by (simp add: t cache_set_memory)
qed

theorem C10_zero_ttl_is_default_witness:
  "(0::int) \<le> 3599999 \<and> (3599999::int) < 0 + 3600000
   \<and> set_then_get Some id False 0 False 3599999 3599999 Map.empty shenasa_cache ''k'' ''v'' (Some 0)
       = Some ''v''"
  using C10_zero_ttl_is_default [where ttl = "Some 0" and now = 0 and ?now1.0 = 3599999
      and stringify = id and rs = False and db = Map.empty and c = shenasa_cache and key = "''k''"
      and v = "''v''" and parse = Some and rg = False and ?now2.0 = 3599999]
  by simp

subsection \<open>API keys and authentication\<close>

lemma count_recent:
  "count_rows False (\<lambda>r. log_apiKey r = Some key \<and> createdAt r \<ge> now - 60 * 60 * 1000) logs
     = Inr (recentRequests_of now logs key)"
  by (simp add: count_rows_def recentRequests_of_def)

lemma validate_not_found:
  "keys key = None \<Longrightarrow> validateApiKey rf rc ru now now' keys logs key = (invalid, keys)"
  by (simp add: validateApiKey_def findUnique_def)

lemma validate_inactive:
  "keys key = Some r \<Longrightarrow> \<not> isActive r \<Longrightarrow>
   validateApiKey rf rc ru now now' keys logs key = (invalid, keys)"
  by (simp add: validateApiKey_def findUnique_def)

lemma validate_quota:
  "keys key = Some r \<Longrightarrow> requestLimit r \<le> recentRequests_of now logs key \<Longrightarrow>
   validateApiKey rf rc ru now now' keys logs key = (invalid, keys)"
  by (simp add: validateApiKey_def findUnique_def count_rows_def recentRequests_of_def Let_def)

lemma validate_rejected:
  "rf \<or> rc \<or> ru \<Longrightarrow> validateApiKey rf rc ru now now' keys logs key = (invalid, keys)"
  by (auto simp: validateApiKey_def findUnique_def count_rows_def update_where_id_def Let_def
      split: option.splits)

lemma validate_ok:
  assumes "keys key = Some r" "isActive r" "recentRequests_of now logs key < requestLimit r"
  shows "validateApiKey False False False now now' keys logs key
     = (\<lparr>isValid = True,
         apiKey = Some \<lparr>v_id = row_id r, v_tier = tier r, v_requestLimit = requestLimit r,
                        v_requestCount = requestCount r, v_isActive = isActive r\<rparr>\<rparr>,
        (\<lambda>k. case keys k of None \<Rightarrow> None
              | Some r' \<Rightarrow> if row_id r' = row_id r then Some (r'\<lparr>lastUsedAt := Some now'\<rparr>) else Some r'))"
  using assms
  by (simp add: validateApiKey_def findUnique_def count_rows_def recentRequests_of_def
      update_where_id_def Let_def)

lemma invalid_not_valid: "\<not> isValid invalid"
  by (simp add: invalid_def)

lemma validate_cases:
  "validateApiKey rf rc ru now now' keys logs key = (invalid, keys)
   \<or> (\<not> rf \<and> \<not> rc \<and> \<not> ru \<and> (\<exists>r. keys key = Some r \<and> isActive r
         \<and> recentRequests_of now logs key < requestLimit r))"
proof (cases "rf \<or> rc \<or> ru")
  case True
  then show ?thesis by (simp add: validate_rejected)
next
  case False
  show ?thesis
  proof (cases "keys key")
    case None
    then show ?thesis by (simp add: validate_not_found)
  next
    case (Some r)
    show ?thesis
    proof (cases "isActive r \<and> recentRequests_of now logs key < requestLimit r")
      case True
      with Some False show ?thesis by blast
    next
      case False
      then have "\<not> isActive r \<or> requestLimit r \<le> recentRequests_of now logs key" by auto
      with Some show ?thesis
        using validate_inactive [where keys = keys and key = key and r = r]
          validate_quota [where keys = keys and key = key and r = r and now = now and logs = logs]
        by auto
    qed
  qed
qed

lemma validate_success:
  assumes "isValid (fst (validateApiKey rf rc ru now now' keys logs key))"
  shows "\<exists>r. keys key = Some r \<and> isActive r \<and> recentRequests_of now logs key < requestLimit r
       \<and> apiKey (fst (validateApiKey rf rc ru now now' keys logs key))
           = Some \<lparr>v_id = row_id r, v_tier = tier r, v_requestLimit = requestLimit r,
                   v_requestCount = requestCount r, v_isActive = True\<rparr>
       \<and> snd (validateApiKey rf rc ru now now' keys logs key) key
           = Some (r\<lparr>lastUsedAt := Some now'\<rparr>)"
proof -
  from validate_cases [of rf rc ru now now' keys logs key] assms
  obtain r where f: "\<not> rf" "\<not> rc" "\<not> ru" and r: "keys key = Some r" "isActive r"
      "recentRequests_of now logs key < requestLimit r"
    by (auto simp: invalid_not_valid)
  from validate_ok [where keys = keys and key = key and r = r and now = now and logs = logs and now' = now', OF r] f r show ?thesis by simp
qed

lemma manager_step_inactive:
  assumes "keys key = Some r" "\<not> isActive r"
  shows "\<exists>r'. manager_step call keys key = Some r' \<and> \<not> isActive r'"
proof (cases call)
  case (Create rejects uid new_id nm t)
  with assms show ?thesis
    by (auto simp: createApiKey_def create_row_def Let_def)
next
  case (Validate rf rc ru now now' logs k)
  have "validateApiKey rf rc ru now now' keys logs k = (invalid, keys)
      \<or> (\<exists>i. snd (validateApiKey rf rc ru now now' keys logs k)
            = (\<lambda>k. case keys k of None \<Rightarrow> None
                  | Some r' \<Rightarrow> if row_id r' = i then Some (r'\<lparr>lastUsedAt := Some now'\<rparr>) else Some r'))"
  proof (cases "validateApiKey rf rc ru now now' keys logs k = (invalid, keys)")
    case True
    then show ?thesis by simp
  next
    case False
    with validate_cases [of rf rc ru now now' keys logs k]
    obtain r0 where f: "\<not> rf" "\<not> rc" "\<not> ru" and r0: "keys k = Some r0" "isActive r0"
      "recentRequests_of now logs k < requestLimit r0" by blast
    from validate_ok [where keys = keys and key = k and r = r0 and now = now and logs = logs
        and now' = now', OF r0] f
    show ?thesis by auto
  qed
  then show ?thesis
  proof
    assume "validateApiKey rf rc ru now now' keys logs k = (invalid, keys)"
    with assms Validate show ?thesis by simp
  next
    assume "\<exists>i. snd (validateApiKey rf rc ru now now' keys logs k)
            = (\<lambda>k. case keys k of None \<Rightarrow> None
                  | Some r' \<Rightarrow> if row_id r' = i then Some (r'\<lparr>lastUsedAt := Some now'\<rparr>) else Some r')"
    then obtain i where "snd (validateApiKey rf rc ru now now' keys logs k)
            = (\<lambda>k. case keys k of None \<Rightarrow> None
                  | Some r' \<Rightarrow> if row_id r' = i then Some (r'\<lparr>lastUsedAt := Some now'\<rparr>) else Some r')"
      by blast
    with assms Validate show ?thesis by simp
  qed
next
  case (IncrementUsage rejects now k)
  with assms show ?thesis
    by (auto simp: incrementUsage_def update_row_def split: option.splits)
next
  case (Deactivate rejects k)
  with assms show ?thesis
    by (auto simp: deactivateApiKey_def update_row_def split: option.splits)
qed

lemma manager_steps_inactive:
  "keys key = Some r \<Longrightarrow> \<not> isActive r \<Longrightarrow>
   \<exists>r'. manager_steps calls keys key = Some r' \<and> \<not> isActive r'"
proof (induction calls arbitrary: keys r)
  case Nil
  then show ?case by simp
next
  case (Cons call calls)
  from manager_step_inactive [where keys = keys and key = key and r = r and call = call, OF Cons.prems]
  obtain r1 where "manager_step call keys key = Some r1" "\<not> isActive r1" by blast
  from Cons.IH [where keys = "manager_step call keys" and r = r1, OF this] show ?case by simp
qed

lemma deactivate_true:
  "fst (deactivateApiKey rd keys key) \<Longrightarrow>
   \<exists>r. snd (deactivateApiKey rd keys key) key = Some r \<and> \<not> isActive r"
  by (auto simp: deactivateApiKey_def update_row_def split: option.splits if_splits)

lemmas sample_defs = sample_keys_def sample_logs_def live_row_def off_row_def small_row_def

lemmas validate_eval = validateApiKey_def findUnique_def count_rows_def update_where_id_def
  invalid_def Let_def


text \<open>
  C8. \<open>validateApiKey(key)\<close> returns \<open>isValid = false\<close> when there is no such credential,
  when the credential is inactive, after a \<open>deactivateApiKey(key)\<close> that returned \<open>true\<close> and
  any later calls of the manager, and when the count of the key's requests in the last hour
  exceeds its \<open>requestLimit\<close>. When it returns \<open>isValid = true\<close>, the result carries the
  credential's tier and \<open>requestLimit\<close>, and the row's \<open>lastUsedAt\<close> is the clock reading of
  the update.
\<close>

theorem C8_validate_fails_closed:
  "(keys key = None \<longrightarrow> \<not> isValid (fst (validateApiKey rf rc ru now now' keys logs key)))
   \<and> (keys key = Some r \<and> \<not> isActive r \<longrightarrow>
        \<not> isValid (fst (validateApiKey rf rc ru now now' keys logs key)))
   \<and> (fst (deactivateApiKey rd keys key) \<longrightarrow>
        \<not> isValid (fst (validateApiKey rf rc ru now now'
              (manager_steps calls (snd (deactivateApiKey rd keys key))) logs key)))
   \<and> (keys key = Some r \<and> requestLimit r < recentRequests_of now logs key \<longrightarrow>
        \<not> isValid (fst (validateApiKey rf rc ru now now' keys logs key)))
   \<and> (isValid (fst (validateApiKey rf rc ru now now' keys logs key)) \<longrightarrow>
        (\<exists>k. keys key = Some k
           \<and> apiKey (fst (validateApiKey rf rc ru now now' keys logs key))
               = Some \<lparr>v_id = row_id k, v_tier = tier k, v_requestLimit = requestLimit k,
                       v_requestCount = requestCount k, v_isActive = True\<rparr>
           \<and> snd (validateApiKey rf rc ru now now' keys logs key) key
               = Some (k\<lparr>lastUsedAt := Some now'\<rparr>)))"
proof (intro conjI impI)
  assume "keys key = None"
  then show "\<not> isValid (fst (validateApiKey rf rc ru now now' keys logs key))"
    by (simp add: validate_not_found invalid_not_valid)
next
  assume "keys key = Some r \<and> \<not> isActive r"
  then show "\<not> isValid (fst (validateApiKey rf rc ru now now' keys logs key))"
    using validate_inactive [where keys = keys and key = key and r = r]
    by (simp add: invalid_not_valid)
next
  assume "fst (deactivateApiKey rd keys key)"
  from deactivate_true [OF this]
  obtain r0 where "snd (deactivateApiKey rd keys key) key = Some r0" "\<not> isActive r0" by blast
  from manager_steps_inactive [where keys = "snd (deactivateApiKey rd keys key)" and key = key
      and r = r0 and calls = calls, OF this]
  obtain r1 where r1: "manager_steps calls (snd (deactivateApiKey rd keys key)) key = Some r1"
    "\<not> isActive r1" by blast
  show "\<not> isValid (fst (validateApiKey rf rc ru now now'
              (manager_steps calls (snd (deactivateApiKey rd keys key))) logs key))"
    using validate_inactive [where keys = "manager_steps calls (snd (deactivateApiKey rd keys key))"
        and key = key and r = r1, OF r1]
    by (simp add: invalid_not_valid)
next
  assume "keys key = Some r \<and> requestLimit r < recentRequests_of now logs key"
  then show "\<not> isValid (fst (validateApiKey rf rc ru now now' keys logs key))"
    using validate_quota [where keys = keys and key = key and r = r and now = now and logs = logs]
    by (simp add: invalid_not_valid)
next
  assume "isValid (fst (validateApiKey rf rc ru now now' keys logs key))"
  from validate_success [OF this]
  show "\<exists>k. keys key = Some k
           \<and> apiKey (fst (validateApiKey rf rc ru now now' keys logs key))
               = Some \<lparr>v_id = row_id k, v_tier = tier k, v_requestLimit = requestLimit k,
                       v_requestCount = requestCount k, v_isActive = True\<rparr>
           \<and> snd (validateApiKey rf rc ru now now' keys logs key) key
               = Some (k\<lparr>lastUsedAt := Some now'\<rparr>)"
    by blast
qed

theorem C8_validate_fails_closed_witness:
  "sample_keys ''sk_none'' = None
   \<and> \<not> isValid (fst (validateApiKey False False False 5000000 5000001 sample_keys sample_logs ''sk_none''))
   \<and> sample_keys ''sk_off'' = Some off_row \<and> \<not> isActive off_row
   \<and> \<not> isValid (fst (validateApiKey False False False 5000000 5000001 sample_keys sample_logs ''sk_off''))
   \<and> fst (deactivateApiKey False sample_keys ''sk_live'')
   \<and> \<not> isValid (fst (validateApiKey False False False 5000000 5000001
          (manager_steps [IncrementUsage False 4999999 ''sk_live'']
             (snd (deactivateApiKey False sample_keys ''sk_live''))) sample_logs ''sk_live''))
   \<and> sample_keys ''sk_small'' = Some small_row
   \<and> requestLimit small_row < recentRequests_of 5000000 sample_logs ''sk_small''
   \<and> \<not> isValid (fst (validateApiKey False False False 5000000 5000001 sample_keys sample_logs ''sk_small''))
   \<and> isValid (fst (validateApiKey False False False 5000000 5000001 sample_keys sample_logs ''sk_live''))
   \<and> snd (validateApiKey False False False 5000000 5000001 sample_keys sample_logs ''sk_live'') ''sk_live''
       = Some (live_row\<lparr>lastUsedAt := Some 5000001\<rparr>)"
  using C8_validate_fails_closed [where keys = sample_keys and key = "''sk_none''" and rf = False
      and rc = False and ru = False and now = 5000000 and now' = 5000001 and logs = sample_logs]
    C8_validate_fails_closed [where keys = sample_keys and key = "''sk_off''" and rf = False
      and rc = False and ru = False and now = 5000000 and now' = 5000001 and logs = sample_logs
      and r = off_row]
    C8_validate_fails_closed [where keys = sample_keys and key = "''sk_live''" and rf = False
      and rc = False and ru = False and now = 5000000 and now' = 5000001 and logs = sample_logs
      and rd = False and calls = "[IncrementUsage False 4999999 ''sk_live'']"]
    C8_validate_fails_closed [where keys = sample_keys and key = "''sk_small''" and rf = False
      and rc = False and ru = False and now = 5000000 and now' = 5000001 and logs = sample_logs
      and r = small_row]
  by (simp add: sample_defs validate_eval recentRequests_of_def deactivateApiKey_def update_row_def)






subsection \<open>Cache: two managers on one table\<close>

lemma getKey_Some: "prefix c = Some p \<Longrightarrow> p \<noteq> [] \<Longrightarrow> getKey c key = p @ '':'' @ key"
  by (simp add: getKey_def)

lemma owned_getKey: "prefix c = Some p \<Longrightarrow> p \<noteq> [] \<Longrightarrow> owned p (getKey c key)"
  by (simp add: getKey_Some owned_def)

lemma owned_disjoint:
  assumes "plain_prefix p" "plain_prefix q" "p \<noteq> q"
  shows "\<not> (owned p key \<and> owned q key)"
proof
  assume a: "owned p key \<and> owned q key"
  have tw: "takeWhile (\<lambda>ch. ch \<noteq> CHR '':'') (r @ '':'') = r" if "CHR '':'' \<notin> set r" for r
    using that by (induction r) auto
  have "takeWhile (\<lambda>ch. ch \<noteq> CHR '':'') key = r" if "owned r key" "CHR '':'' \<notin> set r" for r
  proof -
    from that(1) have "key = (r @ '':'') @ drop (Suc (length r)) key"
      unfolding owned_def by (metis append_take_drop_id)
    then have "takeWhile (\<lambda>ch. ch \<noteq> CHR '':'') key
        = takeWhile (\<lambda>ch. ch \<noteq> CHR '':'') ((r @ '':'') @ drop (Suc (length r)) key)" by simp
    also have "\<dots> = takeWhile (\<lambda>ch. ch \<noteq> CHR '':'') (r @ '':'')"
      by (rule takeWhile_append1 [of "CHR '':''"]) simp_all
    finally show ?thesis using tw [OF that(2)] by simp
  qed
  from this [of p] this [of q] a assms show False by (auto simp: plain_prefix_def)
qed

lemma agree_refl: "agree T p db db"
  by (simp add: agree_def)

lemma agree_mono: "agree T p dbL dbR \<Longrightarrow> T \<le> T' \<Longrightarrow> agree T' p dbL dbR"
  unfolding agree_def by (meson order_trans)

lemma agreeD:
  "agree T p dbL dbR \<Longrightarrow> owned p key \<Longrightarrow>
   dbL key = dbR key \<or> (dbL key = None \<and> (\<exists>r. dbR key = Some r \<and> expiresAt r \<le> T))"
  by (simp add: agree_def)

lemma apply_op_prefix:
  "prefix (snd (snd (apply_op parse stringify op db c))) = prefix c"
  by (cases op)
    (auto simp: cache_get_def check_memory_def check_database_def cache_set_def cache_delete_def cache_clear_def
      cleanExpired_def Let_def case_prod_unfold split: option.splits sum.splits)

lemma check_database_agree:
  assumes "agree T p dbL dbR" "owned p key" "T \<le> now'"
  shows "check_database parse rejects now' dbL c key = check_database parse rejects now' dbR c key"
  using agreeD [OF assms(1,2)] assms(3)
  by (auto simp: check_database_def findUnique_def)

lemma cache_get_agree:
  assumes "agree T p dbL dbR" "prefix c = Some p" "p \<noteq> []" "T \<le> now'"
  shows "cache_get parse rejects now now' dbL c key = cache_get parse rejects now now' dbR c key"
  using check_database_agree [OF assms(1) owned_getKey [OF assms(2,3)] assms(4), of parse rejects c key]
  by (simp add: cache_get_def check_memory_def Let_def split: option.splits)

lemma cache_set_agree:
  assumes "agree T p dbL dbR"
  shows "agree T p (fst (cache_set stringify rejects now dbL c key v ttl))
                   (fst (cache_set stringify rejects now dbR c key v ttl))
       \<and> snd (cache_set stringify rejects now dbL c key v ttl)
           = snd (cache_set stringify rejects now dbR c key v ttl)"
  using assms by (auto simp: cache_set_def upsert_def Let_def agree_def)

lemma cache_delete_agree:
  assumes "agree T p dbL dbR" "prefix c = Some p" "p \<noteq> []"
  shows "agree T p (fst (cache_delete rejects dbL c key)) (fst (cache_delete rejects dbR c key))
       \<and> snd (cache_delete rejects dbL c key) = snd (cache_delete rejects dbR c key)"
proof -
  have o: "owned p (getKey c key)" by (rule owned_getKey [OF assms(2,3)])
  have snd_eq: "snd (cache_delete rejects dbL c key) = snd (cache_delete rejects dbR c key)"
    by (simp add: cache_delete_def delete_row_def Let_def)
  have "agree T p (fst (cache_delete rejects dbL c key)) (fst (cache_delete rejects dbR c key))"
    unfolding agree_def
  proof (intro allI impI)
    fix k assume k: "owned p k"
    from agreeD [OF assms(1) k] agreeD [OF assms(1) o]
    show "fst (cache_delete rejects dbL c key) k = fst (cache_delete rejects dbR c key) k
        \<or> (fst (cache_delete rejects dbL c key) k = None
            \<and> (\<exists>r. fst (cache_delete rejects dbR c key) k = Some r \<and> expiresAt r \<le> T))"
      by (auto simp: cache_delete_def delete_row_def Let_def)
  qed
  with snd_eq show ?thesis by simp
qed

lemma cache_clear_agree:
  assumes "agree T p dbL dbR"
  shows "agree T p (fst (cache_clear rejects dbL c)) (fst (cache_clear rejects dbR c))
       \<and> snd (cache_clear rejects dbL c) = snd (cache_clear rejects dbR c)"
  using assms by (auto simp: cache_clear_def deleteMany_def Let_def agree_def)

lemma cleanExpired_agree:
  assumes "agree T p dbL dbR" "T \<le> now'"
  shows "agree T p (fst (cleanExpired rejects now now' dbL c)) (fst (cleanExpired rejects now now' dbR c))
       \<and> snd (cleanExpired rejects now now' dbL c) = snd (cleanExpired rejects now now' dbR c)"
proof -
  have "agree T p (fst (cleanExpired rejects now now' dbL c)) (fst (cleanExpired rejects now now' dbR c))"
    unfolding agree_def
  proof (intro allI impI)
    fix k assume k: "owned p k"
    from agreeD [OF assms(1) k] assms(2)
    show "fst (cleanExpired rejects now now' dbL c) k = fst (cleanExpired rejects now now' dbR c) k
        \<or> (fst (cleanExpired rejects now now' dbL c) k = None
            \<and> (\<exists>r. fst (cleanExpired rejects now now' dbR c) k = Some r \<and> expiresAt r \<le> T))"
      by (auto simp: cleanExpired_def deleteMany_def Let_def)
  qed
  moreover have "snd (cleanExpired rejects now now' dbL c) = snd (cleanExpired rejects now now' dbR c)"
    by (simp add: cleanExpired_def deleteMany_def Let_def)
  ultimately show ?thesis by simp
qed

lemma apply_op_mine:
  assumes "agree T p dbL dbR" "prefix c = Some p" "p \<noteq> []" "\<forall>t\<in>set (clocks op). T \<le> t"
  shows "fst (apply_op parse stringify op dbL c) = fst (apply_op parse stringify op dbR c)
       \<and> snd (snd (apply_op parse stringify op dbL c)) = snd (snd (apply_op parse stringify op dbR c))
       \<and> agree T p (fst (snd (apply_op parse stringify op dbL c)))
                    (fst (snd (apply_op parse stringify op dbR c)))"
proof (cases op)
  case (Get key rejects now now')
  with assms(4) have "T \<le> now'" by simp
  from cache_get_agree [OF assms(1-3) this, of parse rejects now key] Get assms(1)
  show ?thesis by (simp add: case_prod_unfold Let_def)
next
  case (Set key v ttl rejects now)
  with cache_set_agree [OF assms(1), of stringify rejects now c key v ttl]
  show ?thesis by (simp add: case_prod_unfold Let_def)
next
  case (Delete key rejects)
  with cache_delete_agree [OF assms(1-3), of rejects key]
  show ?thesis by (simp add: case_prod_unfold Let_def)
next
  case (Clear rejects)
  with cache_clear_agree [OF assms(1), of rejects c]
  show ?thesis by (simp add: case_prod_unfold Let_def)
next
  case (CleanExpired rejects now now')
  with assms(4) have "T \<le> now'" by simp
  from cleanExpired_agree [OF assms(1) this, of rejects now c] CleanExpired
  show ?thesis by (simp add: case_prod_unfold Let_def)
qed

lemma apply_op_other:
  assumes "agree T p dbL dbR" "prefix c = Some q" "plain_prefix p" "plain_prefix q" "p \<noteq> q"
    and "\<not> is_Clear op" "sorted (T # clocks op)"
  shows "agree (last (T # clocks op)) p (fst (snd (apply_op parse stringify op dbL c))) dbR"
proof (cases op)
  case (Get key rejects now now')
  from assms(7) Get have "T \<le> now'" by simp
  with agree_mono [OF assms(1) this] Get show ?thesis by (simp add: case_prod_unfold Let_def)
next
  case (Set key v ttl rejects now)
  have nk: "\<not> owned p (getKey c key)"
    using owned_disjoint [OF assms(3,4,5)] owned_getKey [OF assms(2), of key] assms(4)
    by (auto simp: plain_prefix_def)
  from assms(7) Set have "T \<le> now" by simp
  from agree_mono [OF assms(1) this] nk Set show ?thesis
    by (auto simp: cache_set_def upsert_def Let_def agree_def)
next
  case (Delete key rejects)
  have nk: "\<not> owned p (getKey c key)"
    using owned_disjoint [OF assms(3,4,5)] owned_getKey [OF assms(2), of key] assms(4)
    by (auto simp: plain_prefix_def)
  with assms(1) Delete show ?thesis
    by (auto simp: cache_delete_def delete_row_def Let_def agree_def)
next
  case (Clear rejects)
  with assms(6) show ?thesis by simp
next
  case (CleanExpired rejects now now')
  from assms(7) CleanExpired have le: "T \<le> now'" by simp
  have "agree now' p (fst (cleanExpired rejects now now' dbL c)) dbR"
    unfolding agree_def
  proof (intro allI impI)
    fix k assume k: "owned p k"
    from agreeD [OF assms(1) k] le
    show "fst (cleanExpired rejects now now' dbL c) k = dbR k
        \<or> (fst (cleanExpired rejects now now' dbL c) k = None
            \<and> (\<exists>r. dbR k = Some r \<and> expiresAt r \<le> now'))"
      by (auto simp: cleanExpired_def deleteMany_def Let_def split: option.splits)
  qed
  with CleanExpired show ?thesis by (simp add: case_prod_unfold Let_def)
qed

lemma sorted_skip: "sorted (T # cs @ rest) \<Longrightarrow> sorted (T # rest)"
  by (auto simp: sorted_append)

lemma sorted_last: "sorted (T # cs @ rest) \<Longrightarrow> sorted (last (T # cs) # rest)"
proof -
  assume a: "sorted (T # cs @ rest)"
  then have "sorted ((T # cs) @ rest)" by simp
  then have "\<forall>x\<in>set (T # cs). \<forall>y\<in>set rest. x \<le> y" and "sorted rest"
    unfolding sorted_append by blast+
  moreover have "last (T # cs) \<in> set (T # cs)" by (rule last_in_set) simp
  ultimately show ?thesis by (metis sorted_simps(2))
qed

lemma sorted_head: "sorted (T # cs @ rest) \<Longrightarrow> \<forall>t\<in>set cs. T \<le> t"
  by (auto simp: sorted_append)

lemma sorted_front: "sorted (T # cs @ rest) \<Longrightarrow> sorted (T # cs)"
  by (auto simp: sorted_append)

lemma run_agree:
  assumes "plain_prefix p" "plain_prefix q" "p \<noteq> q"
  shows "agree T p dbL dbR \<Longrightarrow> prefix mine = Some p \<Longrightarrow> prefix other = Some q \<Longrightarrow>
    other_never_clears ops \<Longrightarrow> sorted (T # all_clocks ops) \<Longrightarrow>
    fst (run parse stringify ops dbL mine other)
      = fst (run parse stringify (mine_only ops) dbR mine other')
    \<and> fst (snd (snd (run parse stringify ops dbL mine other)))
      = fst (snd (snd (run parse stringify (mine_only ops) dbR mine other')))"
proof (induction ops arbitrary: T dbL dbR mine other)
  case Nil
  then show ?case by (simp add: mine_only_def)
next
  case (Cons a ops)
  obtain w op where a: "a = (w, op)" by (cases a)
  from Cons.prems(5) a have srt: "sorted (T # clocks op @ all_clocks ops)"
    by (simp add: all_clocks_def)
  from Cons.prems(4) a have nc: "other_never_clears ops" and wop: "w = Mine \<or> \<not> is_Clear op"
    by (simp_all add: other_never_clears_def)
  from assms(1) have pne: "p \<noteq> []" by (simp add: plain_prefix_def)
  show ?case
  proof (cases w)
    case Mine
    let ?L = "apply_op parse stringify op dbL mine"
    let ?R = "apply_op parse stringify op dbR mine"
    from apply_op_mine [OF Cons.prems(1,2) pne sorted_head [OF srt], of parse stringify]
    have eq: "fst ?L = fst ?R" "snd (snd ?L) = snd (snd ?R)"
      and ag: "agree T p (fst (snd ?L)) (fst (snd ?R))" by simp_all
    have pm: "prefix (snd (snd ?L)) = Some p"
      using Cons.prems(2) by (simp add: apply_op_prefix)
    from Cons.IH [OF ag pm Cons.prems(3) nc sorted_skip [OF srt]]
    show ?thesis
      using a Mine eq by (simp add: mine_only_def case_prod_unfold Let_def)
  next
    case Other
    let ?L = "apply_op parse stringify op dbL other"
    from wop Other have "\<not> is_Clear op" by simp
    from apply_op_other [OF Cons.prems(1,3) assms this sorted_front [OF srt], of parse stringify]
    have ag: "agree (last (T # clocks op)) p (fst (snd ?L)) dbR" .
    have po: "prefix (snd (snd ?L)) = Some q"
      using Cons.prems(3) by (simp add: apply_op_prefix)
    from Cons.IH [OF ag Cons.prems(2) po nc sorted_last [OF srt]]
    show ?thesis
      using a Other by (simp add: mine_only_def case_prod_unfold Let_def)
  qed
qed

theorem C3:
  assumes "prefix mine = Some p" "prefix other = Some q"
    and "plain_prefix p" "plain_prefix q" "p \<noteq> q"
    and "other_never_clears ops" and "sorted (all_clocks ops)"
  shows "fst (run parse stringify ops db mine other)
           = fst (run parse stringify (mine_only ops) db mine other)
       \<and> fst (snd (snd (run parse stringify ops db mine other)))
           = fst (snd (snd (run parse stringify (mine_only ops) db mine other)))"
proof -
  define T where "T = (if all_clocks ops = [] then 0 else hd (all_clocks ops))"
  have "sorted (T # all_clocks ops)"
    using assms(7) unfolding T_def by (cases "all_clocks ops") auto
  from run_agree [OF assms(3,4,5) agree_refl assms(1,2,6) this]
  show ?thesis .
qed

lemma other_op_rows:
  assumes "prefix mine = Some p" "prefix other = Some q"
    and "plain_prefix p" "plain_prefix q" "p \<noteq> q"
    and "\<not> is_Clear op" "\<not> is_CleanExpired op"
  shows "fst (snd (apply_op parse stringify op db other)) (getKey mine key) = db (getKey mine key)"
proof -
  have o: "owned p (getKey mine key)"
    using owned_getKey [OF assms(1)] assms(3) by (simp add: plain_prefix_def)
  have nk: "getKey other k \<noteq> getKey mine key" for k
    using owned_disjoint [OF assms(3,4,5), of "getKey mine key"] o
      owned_getKey [OF assms(2), of k] assms(4)
    by (auto simp: plain_prefix_def)
  show ?thesis
  proof (cases op)
    case (Get k rejects now now')
    then show ?thesis by (simp add: case_prod_unfold Let_def)
  next
    case (Set k v ttl rejects now)
    with nk [of k] show ?thesis
      by (auto simp: cache_set_def upsert_def Let_def)
  next
    case (Delete k rejects)
    with nk [of k] show ?thesis
      by (auto simp: cache_delete_def delete_row_def Let_def)
  next
    case (Clear rejects)
    with assms(6) show ?thesis by simp
  next
    case (CleanExpired rejects now now')
    with assms(7) show ?thesis by simp
  qed
qed

lemma other_sweep_rows:
  "fst (snd (apply_op parse stringify (CleanExpired rejects now now') db other)) key = db key
   \<or> (fst (snd (apply_op parse stringify (CleanExpired rejects now now') db other)) key = None
       \<and> (\<exists>r. db key = Some r \<and> expiresAt r \<le> now'))"
  by (auto simp: cleanExpired_def deleteMany_def Let_def split: option.splits)

text \<open>
  C3, as the code has it. Two managers share one table; their prefixes are different,
  non-empty and free of colons. In every sequence of \<open>get\<close>, \<open>set\<close>, \<open>delete\<close>, \<open>clear\<close>
  and \<open>cleanExpired\<close> calls of the two, with clock readings that do not decrease and no
  \<open>clear\<close> by the other manager, the \<open>get\<close> calls of a manager return what they would
  return, and its memory tier ends as it would end, had the other manager made no call at
  all. A \<open>get\<close>, \<open>set\<close> or \<open>delete\<close> of the other manager leaves every row under this
  manager's prefix as it was; a \<open>cleanExpired\<close> of the other manager removes such a row only
  if it had expired at the sweep.
\<close>

theorem C3_isolation_without_clear:
  assumes "prefix mine = Some p" and "prefix other = Some q"
    and "plain_prefix p" and "plain_prefix q" and "p \<noteq> q"
    and "other_never_clears ops" and "sorted (all_clocks ops)"
  shows "fst (run parse stringify ops db mine other)
           = fst (run parse stringify (mine_only ops) db mine other)
       \<and> fst (snd (snd (run parse stringify ops db mine other)))
           = fst (snd (snd (run parse stringify (mine_only ops) db mine other)))
       \<and> (\<not> is_Clear op \<and> \<not> is_CleanExpired op \<longrightarrow>
            fst (snd (apply_op parse stringify op db other)) (getKey mine key) = db (getKey mine key))
       \<and> (fst (snd (apply_op parse stringify (CleanExpired rejects now now') db other)) (getKey mine key)
             = db (getKey mine key)
           \<or> (\<exists>r. db (getKey mine key) = Some r \<and> expiresAt r \<le> now'))"
proof -
  define T where "T = (if all_clocks ops = [] then 0 else hd (all_clocks ops))"
  have "sorted (T # all_clocks ops)"
    using assms(7) unfolding T_def by (cases "all_clocks ops") auto
  from run_agree [OF assms(3,4,5) agree_refl assms(1,2,6) this]
  have "fst (run parse stringify ops db mine other)
           = fst (run parse stringify (mine_only ops) db mine other)
       \<and> fst (snd (snd (run parse stringify ops db mine other)))
           = fst (snd (snd (run parse stringify (mine_only ops) db mine other)))" .
  moreover have "\<not> is_Clear op \<and> \<not> is_CleanExpired op \<longrightarrow>
      fst (snd (apply_op parse stringify op db other)) (getKey mine key) = db (getKey mine key)"
    using other_op_rows [OF assms(1-5)] by blast
  moreover have "fst (snd (apply_op parse stringify (CleanExpired rejects now now') db other)) (getKey mine key)
             = db (getKey mine key)
           \<or> (\<exists>r. db (getKey mine key) = Some r \<and> expiresAt r \<le> now')"
    using other_sweep_rows [of parse stringify rejects now now' db other "getKey mine key"] by blast
  ultimately show ?thesis by blast
qed

lemmas cache_eval = cache_get_def check_memory_def check_database_def cache_set_def
  cache_delete_def cache_clear_def cleanExpired_def findUnique_def upsert_def delete_row_def deleteMany_def getKey_def
  ttl_or_default_def defaultTTL_def Let_def

theorem C3_isolation_without_clear_witness:
  "prefix shenasa_cache = Some ''shenasa'' \<and> prefix tenant_cache = Some ''tenant''
   \<and> plain_prefix ''shenasa'' \<and> plain_prefix ''tenant'' \<and> ''shenasa'' \<noteq> ''tenant''
   \<and> other_never_clears
        [(Other, Set ''k'' ''w'' (Some 60) False 0), (Other, Delete ''k'' False),
         (Other, CleanExpired False 1 1), (Mine, Get ''k'' False 2 2)]
   \<and> sorted (all_clocks
        [(Other, Set ''k'' ''w'' (Some 60) False 0), (Other, Delete ''k'' False),
         (Other, CleanExpired False 1 1), (Mine, Get ''k'' False 2 2)])
   \<and> fst (run Some id
        [(Other, Set ''k'' ''w'' (Some 60) False 0), (Other, Delete ''k'' False),
         (Other, CleanExpired False 1 1), (Mine, Get ''k'' False 2 2)]
        stored_row shenasa_cache tenant_cache) = [Some ''v'']
   \<and> fst (run Some id [(Mine, Get ''k'' False 2 2)] stored_row shenasa_cache tenant_cache)
       = [Some ''v'']
   \<and> fst (snd (apply_op Some id (Set ''k'' ''w'' (Some 60) False 0) stored_row tenant_cache))
        (getKey shenasa_cache ''k'') = stored_row (getKey shenasa_cache ''k'')"
  using C3_isolation_without_clear [where mine = shenasa_cache and other = tenant_cache
      and p = "''shenasa''" and q = "''tenant''" and parse = Some and stringify = id
      and db = stored_row and key = "''k''" and op = "Set ''k'' ''w'' (Some 60) False 0"
      and ops = "[(Other, Set ''k'' ''w'' (Some 60) False 0), (Other, Delete ''k'' False),
         (Other, CleanExpired False 1 1), (Mine, Get ''k'' False 2 2)]"]
  by (simp add: shenasa_cache_def tenant_cache_def stored_row_def plain_prefix_def
      other_never_clears_def all_clocks_def mine_only_def cache_eval)

text \<open>
  C3 as the claim states it fails in two ways. \<open>clear()\<close> issues \<open>deleteMany({})\<close>: called by
  one manager it removes the live row of the other, whose next \<open>get\<close> on a cold memory tier
  misses. And \<open>getKey\<close> joins prefix and key with a colon without escaping: the managers with
  the prefixes \<open>shenasa\<close> and \<open>shenasa:prod\<close> meet on the key \<open>shenasa:prod:k\<close>, and one reads
  what the other wrote.
\<close>

theorem C3_clear_and_collision_counterexample:
  "fst (run Some id [(Other, Clear False), (Mine, Get ''k'' False 2 2)]
          stored_row shenasa_cache tenant_cache) = [None]
   \<and> fst (run Some id [(Mine, Get ''k'' False 2 2)] stored_row shenasa_cache tenant_cache)
       = [Some ''v'']
   \<and> stored_row (getKey shenasa_cache ''k'') = Some \<lparr>item_value = ''v'', expiresAt = 3600000\<rparr>
   \<and> fst (snd (apply_op Some id (Clear False) stored_row tenant_cache)) (getKey shenasa_cache ''k'')
       = None
   \<and> prefix shenasa_prod_cache \<noteq> prefix shenasa_cache
   \<and> fst (run Some id
            [(Other, Set ''prod:k'' ''theirs'' (Some 60) False 0), (Mine, Get ''k'' False 1 1)]
            Map.empty shenasa_prod_cache shenasa_cache) = [Some ''theirs'']"
  by (simp add: shenasa_cache_def tenant_cache_def shenasa_prod_cache_def stored_row_def cache_eval)

subsection \<open>Batch endpoint\<close>


lemma getKey_inj: "getKey c k = getKey c k' \<Longrightarrow> k = k'"
  by (auto simp: getKey_def split: option.splits if_splits)

lemma check_database_none:
  "db cacheKey = None \<Longrightarrow> check_database parse rejects now' db c cacheKey = (None, c)"
  by (simp add: check_database_def findUnique_def)

lemma check_database_state:
  "snd (check_database parse rejects now' db c cacheKey) = c
   \<or> (db cacheKey \<noteq> None
       \<and> (\<exists>m. snd (check_database parse rejects now' db c cacheKey)
               = c\<lparr>memoryCache := (memoryCache c)(cacheKey \<mapsto> m)\<rparr>))"
  by (auto simp: check_database_def findUnique_def split: option.splits)

lemma check_database_clean:
  assumes "clean F cr db c"
  shows "clean F cr db (snd (check_database parse rejects now' db c cacheKey))"
  using check_database_state [of parse rejects now' db c cacheKey] assms
  by (auto simp: clean_def)

lemma get_item_spec:
  assumes "clean F cr db c0" "clean F cr db c"
  shows "(fst it \<in> F \<longrightarrow> fst (get_item parse c0 db it c) = None)
       \<and> clean F cr db (snd (get_item parse c0 db it c))"
proof -
  let ?key = "getKey c0 (''name:'' @ fst it)"
  have "prefix c0 = prefix cr"
    using assms(1) by (simp add: clean_def)
  then have k: "?key = getKey cr (''name:'' @ fst it)"
    by (rule getKey_cong)
  have "fst (get_item parse c0 db it c) = None" if "fst it \<in> F"
  proof -
    from that assms have "memoryCache c0 ?key = None" "db ?key = None"
      unfolding k by (simp_all add: clean_def)
    then show ?thesis by (simp add: get_item_def check_memory_def check_database_none)
  qed
  moreover have "clean F cr db (snd (get_item parse c0 db it c))"
  proof (cases "check_memory (t_memory (snd it)) c0 ?key")
    case None
    then show ?thesis
      using check_database_clean [OF assms(2)] by (simp add: get_item_def)
  next
    case (Some v)
    then show ?thesis using assms(2) by (simp add: get_item_def)
  qed
  ultimately show ?thesis by blast
qed

lemma get_phase_spec:
  assumes "clean F cr db c0"
  shows "clean F cr db c \<Longrightarrow>
    list_all2 (\<lambda>it r. fst it \<in> F \<longrightarrow> r = None) items (fst (get_phase parse c0 db items c))
    \<and> clean F cr db (snd (get_phase parse c0 db items c))"
proof (induction items arbitrary: c)
  case Nil
  then show ?case by simp
next
  case (Cons it items)
  from get_item_spec [OF assms Cons.prems, of it parse]
  have n: "fst it \<in> F \<longrightarrow> fst (get_item parse c0 db it c) = None"
    and cl: "clean F cr db (snd (get_item parse c0 db it c))" by simp_all
  from Cons.IH [OF cl] n show ?case
    by (simp add: case_prod_unfold Let_def)
qed

lemma cache_set_clean:
  assumes "clean F cr db c" "n \<notin> F"
  shows "clean F cr (fst (cache_set stringify rejects now db c (''name:'' @ n) v ttl))
          (snd (cache_set stringify rejects now db c (''name:'' @ n) v ttl))"
proof -
  have p: "prefix c = prefix cr" using assms(1) by (simp add: clean_def)
  have ne: "getKey c (''name:'' @ n) \<noteq> getKey cr (''name:'' @ f)" if "f \<in> F" for f
  proof
    assume "getKey c (''name:'' @ n) = getKey cr (''name:'' @ f)"
    then have "getKey cr (''name:'' @ n) = getKey cr (''name:'' @ f)"
      by (simp add: getKey_cong [OF p])
    from getKey_inj [OF this] that assms(2) show False by simp
  qed
  have "memoryCache (snd (cache_set stringify rejects now db c (''name:'' @ n) v ttl))
          (getKey cr (''name:'' @ f)) = memoryCache c (getKey cr (''name:'' @ f))
      \<and> fst (cache_set stringify rejects now db c (''name:'' @ n) v ttl) (getKey cr (''name:'' @ f))
          = db (getKey cr (''name:'' @ f))" if "f \<in> F" for f
    using ne [OF that] by (auto simp: cache_set_def upsert_def Let_def)
  moreover have "prefix (snd (cache_set stringify rejects now db c (''name:'' @ n) v ttl)) = prefix cr"
    using p by (simp add: cache_set_def upsert_def Let_def)
  ultimately show ?thesis
    using assms(1) by (simp add: clean_def)
qed

lemma find_item_spec:
  assumes "clean F cr db c" "fst it \<in> F \<longrightarrow> cached = None"
    and "origin_fails rows it \<longleftrightarrow> fst it \<in> F"
  shows "item_ok rows it (fst (find_item stringify incl rows it cached db c))
       \<and> clean F cr (fst (snd (find_item stringify incl rows it cached db c)))
            (snd (snd (find_item stringify incl rows it cached db c)))"
proof (cases cached)
  case (Some v)
  with assms(2,3) have "\<not> origin_fails rows it" by auto
  then have "item_ok rows it (hit_result incl (fst it) v)"
    by (simp add: item_ok_def hit_result_def)
  with Some assms(1) show ?thesis by (simp add: find_item_def)
next
  case None
  show ?thesis
  proof (cases "find_rejects (snd it)")
    case True
    then have "origin_fails rows it" by (simp add: origin_fails_def)
    then have "item_ok rows it (catch_result incl (fst it))"
      by (simp add: item_ok_def catch_result_def degraded_def)
    with True None assms(1) show ?thesis by (simp add: find_item_def findFirst_def)
  next
    case False
    let ?data = "find (\<lambda>r. pname r = fst it) rows"
    have ok: "item_ok rows it (table_result incl (fst it) ?data)"
      using False
      by (cases ?data) (simp_all add: item_ok_def table_result_def origin_fails_def degraded_def)
    show ?thesis
    proof (cases ?data)
      case None': None
      with None False ok assms(1) show ?thesis by (simp add: find_item_def findFirst_def)
    next
      case (Some d)
      with False have "\<not> origin_fails rows it" by (simp add: origin_fails_def)
      with assms(3) have "fst it \<notin> F" by simp
      from cache_set_clean [OF assms(1) this] Some None False ok show ?thesis
        by (simp add: find_item_def findFirst_def)
    qed
  qed
qed

lemma find_phase_spec:
  "clean F cr db c \<Longrightarrow>
   \<forall>z\<in>set zs. (fst (fst z) \<in> F \<longrightarrow> snd z = None) \<and> (origin_fails rows (fst z) \<longleftrightarrow> fst (fst z) \<in> F) \<Longrightarrow>
   list_all2 (item_ok rows) (map fst zs) (fst (find_phase stringify incl rows zs db c))
   \<and> clean F cr (fst (snd (find_phase stringify incl rows zs db c)))
        (snd (snd (find_phase stringify incl rows zs db c)))"
proof (induction zs arbitrary: db c)
  case Nil
  then show ?case by simp
next
  case (Cons z zs)
  obtain it cached where z: "z = (it, cached)" by (cases z)
  from Cons.prems(2) have rest: "\<forall>z\<in>set zs. (fst (fst z) \<in> F \<longrightarrow> snd z = None)
      \<and> (origin_fails rows (fst z) \<longleftrightarrow> fst (fst z) \<in> F)" by simp
  from Cons.prems(2) z have here: "fst it \<in> F \<longrightarrow> cached = None" "origin_fails rows it \<longleftrightarrow> fst it \<in> F"
    by simp_all
  from find_item_spec [OF Cons.prems(1) here, of stringify incl]
  have ok: "item_ok rows it (fst (find_item stringify incl rows it cached db c))"
    and cl: "clean F cr (fst (snd (find_item stringify incl rows it cached db c)))
            (snd (snd (find_item stringify incl rows it cached db c)))" by simp_all
  from Cons.IH [OF cl rest] ok z show ?case
    by (simp add: case_prod_unfold Let_def)
qed

lemma process_batch_spec:
  assumes "clean F cr db c" "\<forall>it\<in>set batch. origin_fails rows it \<longleftrightarrow> fst it \<in> F"
  shows "list_all2 (item_ok rows) batch (fst (process_batch parse stringify incl rows batch db c))
       \<and> clean F cr (fst (snd (process_batch parse stringify incl rows batch db c)))
            (snd (snd (process_batch parse stringify incl rows batch db c)))"
proof -
  let ?g = "get_phase parse c db batch c"
  from get_phase_spec [OF assms(1) assms(1), of batch parse]
  have l: "list_all2 (\<lambda>it r. fst it \<in> F \<longrightarrow> r = None) batch (fst ?g)"
    and cl: "clean F cr db (snd ?g)" by simp_all
  from l have len: "length (fst ?g) = length batch" by (simp add: list_all2_lengthD)
  have z: "\<forall>z\<in>set (zip batch (fst ?g)). (fst (fst z) \<in> F \<longrightarrow> snd z = None)
      \<and> (origin_fails rows (fst z) \<longleftrightarrow> fst (fst z) \<in> F)"
  proof
    fix z assume "z \<in> set (zip batch (fst ?g))"
    then obtain i where i: "i < length batch" "z = (batch ! i, fst ?g ! i)"
      using len by (auto simp: set_zip)
    from l i(1) have "fst (batch ! i) \<in> F \<longrightarrow> fst ?g ! i = None"
      by (simp add: list_all2_conv_all_nth)
    moreover from assms(2) i(1) have "origin_fails rows (batch ! i) \<longleftrightarrow> fst (batch ! i) \<in> F"
      by simp
    ultimately show "(fst (fst z) \<in> F \<longrightarrow> snd z = None)
      \<and> (origin_fails rows (fst z) \<longleftrightarrow> fst (fst z) \<in> F)"
      using i(2) by simp
  qed
  have m: "map fst (zip batch (fst ?g)) = batch"
    using len by (simp add: map_fst_zip)
  from find_phase_spec [OF cl z, of stringify incl] m
  show ?thesis by (simp add: process_batch_def case_prod_unfold Let_def)
qed

lemma count_zero_confidence:
  "list_all2 (item_ok rows) xs ys \<Longrightarrow>
   length (filter (\<lambda>r. confidence r = 0) ys) = length (filter (origin_fails rows) xs)"
  by (induction xs ys rule: list_all2_induct) (auto simp: item_ok_def)

lemma batch_loop_spec:
  "\<forall>it\<in>set names. origin_fails rows it \<longleftrightarrow> fst it \<in> F \<Longrightarrow>
   clean F cr db c \<Longrightarrow>
   list_all2 (item_ok rows) (take i names) results0 \<Longrightarrow>
   ec0 = int (length (filter (origin_fails rows) (take i names))) \<Longrightarrow>
   list_all2 (item_ok rows) names
     (fst (fst (batch_loop parse stringify incl rows names i results0 ec0 db c)))
   \<and> snd (fst (batch_loop parse stringify incl rows names i results0 ec0 db c))
       = int (length (filter (origin_fails rows) names))"
proof (induction parse stringify incl rows names i results0 ec0 db c rule: batch_loop.induct)
  case (1 parse stringify incl rows names i results errorCount db c)
  show ?case
  proof (cases "i < length names")
    case False
    with "1.prems"(3,4) show ?thesis by simp
  next
    case True
    let ?batch = "take batchSize (drop i names)"
    let ?p = "process_batch parse stringify incl rows ?batch db c"
    have sub: "\<forall>it\<in>set ?batch. origin_fails rows it \<longleftrightarrow> fst it \<in> F"
      using "1.prems"(1) by (meson in_set_dropD in_set_takeD)
    from process_batch_spec [OF "1.prems"(2) sub, of parse stringify incl]
    have ok: "list_all2 (item_ok rows) ?batch (fst ?p)"
      and cl: "clean F cr (fst (snd ?p)) (snd (snd ?p))" by simp_all
    have tk: "take (i + batchSize) names = take i names @ ?batch"
      by (simp add: take_add)
    have ok': "list_all2 (item_ok rows) (take (i + batchSize) names) (results @ fst ?p)"
      unfolding tk using "1.prems"(3) ok by (rule list_all2_appendI)
    have ec': "errorCount + int (length (filter (\<lambda>result. confidence result = 0.0) (fst ?p)))
        = int (length (filter (origin_fails rows) (take (i + batchSize) names)))"
      unfolding tk using count_zero_confidence [OF ok] "1.prems"(4) by simp
    from "1.IH" [OF True refl refl prod.collapse prod.collapse refl "1.prems"(1) cl ok' ec']
    show ?thesis
      using True by (subst (1 2) batch_loop.simps) (simp add: case_prod_unfold Let_def)
  qed
qed

lemma sub_batches_Nil: "sub_batches [] = []"
  by (subst sub_batches.simps) simp

lemma sub_batches_Cons:
  "xs \<noteq> [] \<Longrightarrow> sub_batches xs = take batchSize xs # sub_batches (drop batchSize xs)"
  by (subst sub_batches.simps) simp

lemma sub_batches_bounded:
  "b \<in> set (sub_batches xs) \<Longrightarrow> b \<noteq> [] \<and> length b \<le> 10"
proof (induction xs rule: sub_batches.induct)
  case (1 xs)
  show ?case
  proof (cases "xs = []")
    case True
    with "1.prems" show ?thesis by (simp add: sub_batches_Nil)
  next
    case False
    from "1.prems" have "b = take batchSize xs \<or> b \<in> set (sub_batches (drop batchSize xs))"
      unfolding sub_batches_Cons [OF False] by simp
    then show ?thesis
    proof
      assume "b = take batchSize xs"
      with False show ?thesis by (simp add: batchSize_def)
    next
      assume "b \<in> set (sub_batches (drop batchSize xs))"
      with "1.IH" [OF False] show ?thesis .
    qed
  qed
qed

lemma concat_sub_batches: "concat (sub_batches xs) = xs"
proof (induction xs rule: sub_batches.induct)
  case (1 xs)
  show ?case
  proof (cases "xs = []")
    case True
    then show ?thesis by (simp add: sub_batches_Nil)
  next
    case False
    have "concat (sub_batches xs) = take batchSize xs @ concat (sub_batches (drop batchSize xs))"
      unfolding sub_batches_Cons [OF False] by simp
    also have "\<dots> = take batchSize xs @ drop batchSize xs"
      unfolding "1.IH" [OF False] ..
    finally show ?thesis by simp
  qed
qed

lemma batch_loop_batches:
  "fst (fst (batch_loop parse stringify incl rows names i results0 ec0 db c))
     = results0 @ fst (run_batches parse stringify incl rows (sub_batches (drop i names)) db c)"
proof (induction parse stringify incl rows names i results0 ec0 db c rule: batch_loop.induct)
  case (1 parse stringify incl rows names i results errorCount db c)
  show ?case
  proof (cases "i < length names")
    case False
    then have "sub_batches (drop i names) = []"
      by (subst sub_batches.simps) simp
    with False show ?thesis
      by (subst batch_loop.simps) simp
  next
    case True
    let ?batch = "take batchSize (drop i names)"
    have sb: "sub_batches (drop i names) = ?batch # sub_batches (drop (i + batchSize) names)"
      using True by (subst sub_batches.simps) (simp add: add.commute)
    from "1.IH" [OF True refl refl prod.collapse prod.collapse refl]
    show ?thesis
      using True unfolding sb
      by (subst batch_loop.simps) (simp add: case_prod_unfold Let_def)
  qed
qed

lemma handler_ok:
  "t \<noteq> FREE \<Longrightarrow> names \<noteq> [] \<Longrightarrow> length names \<le> 100 \<Longrightarrow>
   fst (batch_handler parse stringify t incl rows t_start t_end names db c)
     = BatchOk \<lparr>results = fst (fst (batch_loop parse stringify incl rows names 0 [] 0 db c)),
         processedCount = int (length names),
         errorCount = snd (fst (batch_loop parse stringify incl rows names 0 [] 0 db c)),
         processingTime = t_end - t_start\<rparr>"
  by (simp add: batch_handler_def case_prod_unfold Let_def)

lemma names_kept:
  "list_all2 (item_ok rows) xs ys \<Longrightarrow> map r_name ys = map fst xs"
  by (induction xs ys rule: list_all2_induct) (auto simp: item_ok_def)

lemma failing_names:
  assumes "\<forall>x\<in>set names. \<forall>y\<in>set names. fst x = fst y \<longrightarrow> origin_fails rows x = origin_fails rows y"
    and "it \<in> set names"
  shows "origin_fails rows it \<longleftrightarrow> fst it \<in> fst ` {x \<in> set names. origin_fails rows x}"
proof
  assume "origin_fails rows it"
  with assms(2) show "fst it \<in> fst ` {x \<in> set names. origin_fails rows x}" by blast
next
  assume "fst it \<in> fst ` {x \<in> set names. origin_fails rows x}"
  then obtain y where y: "y \<in> set names" "origin_fails rows y" "fst it = fst y" by blast
  from assms y(1) y(3) have "origin_fails rows it = origin_fails rows y" by blast
  with y(2) show "origin_fails rows it" by simp
qed

lemma uncached_clean:
  assumes "\<forall>x\<in>set names. origin_fails rows x \<longrightarrow> uncached db c x"
  shows "clean (fst ` {x \<in> set names. origin_fails rows x}) c db c"
  unfolding clean_def
proof (rule conjI)
  show "prefix c = prefix c" by simp
next
  show "\<forall>n\<in>fst ` {x \<in> set names. origin_fails rows x}.
      memoryCache c (getKey c (''name:'' @ n)) = None \<and> db (getKey c (''name:'' @ n)) = None"
  proof (rule ballI)
    fix n assume "n \<in> fst ` {x \<in> set names. origin_fails rows x}"
    then obtain y where y: "y \<in> set names" "origin_fails rows y" "n = fst y" by blast
    from assms y(1,2) have "uncached db c y" by blast
    with y(3) show "memoryCache c (getKey c (''name:'' @ n)) = None
        \<and> db (getKey c (''name:'' @ n)) = None"
      by (simp add: uncached_def)
  qed
qed

text \<open>
  C9. The loop of the batch handler takes the names ten at a time: its results are those
  of processing the sub-batches of the names, none longer than ten, one after the other. For a paid tier and a batch of 1 to 100 items, where the names whose origin
  lookup fails have no cache entry and a name fails either at each of its occurrences or at
  none: the handler answers with one result per item, in order; the result of an item has
  confidence 0 exactly when its origin lookup failed, and is then the null result; and
  \<open>errorCount\<close> is the number of items whose lookup failed. For five items of which two
  fail, that is five results, two of confidence 0, and \<open>errorCount = 2\<close>.
\<close>

theorem C9_batch_partial_failure:
  assumes "t \<noteq> FREE" and "names \<noteq> []" and "length names \<le> 100"
    and "\<forall>x\<in>set names. origin_fails rows x \<longrightarrow> uncached db c x"
    and "\<forall>x\<in>set names. \<forall>y\<in>set names. fst x = fst y \<longrightarrow> origin_fails rows x = origin_fails rows y"
  shows "\<exists>body. fst (batch_handler parse stringify t incl rows t_start t_end names db c) = BatchOk body
       \<and> length (results body) = length names
       \<and> map r_name (results body) = map fst names
       \<and> (\<forall>i<length names.
            (confidence (results body ! i) = 0 \<longleftrightarrow> origin_fails rows (names ! i))
            \<and> (origin_fails rows (names ! i) \<longrightarrow> degraded (results body ! i)))
       \<and> length (filter (\<lambda>r. confidence r = 0) (results body))
           = length (filter (origin_fails rows) names)
       \<and> errorCount body = int (length (filter (origin_fails rows) names))
       \<and> processedCount body = int (length names)
       \<and> results body = fst (run_batches parse stringify incl rows (sub_batches names) db c)
       \<and> concat (sub_batches names) = names
       \<and> (\<forall>b\<in>set (sub_batches names). b \<noteq> [] \<and> length b \<le> 10)"
proof -
  define F where "F = fst ` {x \<in> set names. origin_fails rows x}"
  have allF: "\<forall>it\<in>set names. origin_fails rows it \<longleftrightarrow> fst it \<in> F"
    unfolding F_def using failing_names [OF assms(5)] by blast
  have cl: "clean F c db c"
    unfolding F_def by (rule uncached_clean [OF assms(4)])
  define rs where "rs = fst (fst (batch_loop parse stringify incl rows names 0 [] 0 db c))"
  define ec where "ec = snd (fst (batch_loop parse stringify incl rows names 0 [] 0 db c))"
  define body where "body = \<lparr>results = rs, processedCount = int (length names),
      errorCount = ec, processingTime = t_end - t_start\<rparr>"
  have start: "list_all2 (item_ok rows) (take 0 names) []"
    "(0::int) = int (length (filter (origin_fails rows) (take 0 names)))" by simp_all
  from batch_loop_spec [OF allF cl start, of parse stringify incl]
  have ok: "list_all2 (item_ok rows) names rs"
    and ec: "ec = int (length (filter (origin_fails rows) names))"
    unfolding rs_def ec_def by blast+
  have h: "fst (batch_handler parse stringify t incl rows t_start t_end names db c) = BatchOk body"
    unfolding body_def rs_def ec_def by (rule handler_ok [OF assms(1-3)])
  have len: "length rs = length names"
    using ok by (simp add: list_all2_lengthD)
  have nm: "map r_name rs = map fst names"
    using ok by (rule names_kept)
  have each: "(confidence (rs ! i) = 0 \<longleftrightarrow> origin_fails rows (names ! i))
            \<and> (origin_fails rows (names ! i) \<longrightarrow> degraded (rs ! i))" if "i < length names" for i
  proof -
    from ok that have "item_ok rows (names ! i) (rs ! i)" by (rule list_all2_nthD)
    then show ?thesis by (simp add: item_ok_def)
  qed
  have cnt: "length (filter (\<lambda>r. confidence r = 0) rs) = length (filter (origin_fails rows) names)"
    using ok by (rule count_zero_confidence)
  have b: "results body = rs" "errorCount body = ec" "processedCount body = int (length names)"
    by (simp_all add: body_def)
  have c1: "length (results body) = length names"
    unfolding b by (rule len)
  have c2: "map r_name (results body) = map fst names"
    unfolding b by (rule nm)
  have c3: "\<forall>i<length names.
            (confidence (results body ! i) = 0 \<longleftrightarrow> origin_fails rows (names ! i))
            \<and> (origin_fails rows (names ! i) \<longrightarrow> degraded (results body ! i))"
    unfolding b
  proof (intro allI impI)
    fix i assume "i < length names"
    then show "(confidence (rs ! i) = 0 \<longleftrightarrow> origin_fails rows (names ! i))
            \<and> (origin_fails rows (names ! i) \<longrightarrow> degraded (rs ! i))"
      by (rule each)
  qed
  have c4: "length (filter (\<lambda>r. confidence r = 0) (results body))
           = length (filter (origin_fails rows) names)"
    unfolding b by (rule cnt)
  have c5: "errorCount body = int (length (filter (origin_fails rows) names))"
    unfolding b by (rule ec)
  have c6: "results body = fst (run_batches parse stringify incl rows (sub_batches names) db c)"
    unfolding b rs_def
    using batch_loop_batches [of parse stringify incl rows names 0 "[]" 0 db c] by simp
  have c7: "concat (sub_batches names) = names"
    by (rule concat_sub_batches)
  have c8: "\<forall>b\<in>set (sub_batches names). b \<noteq> [] \<and> length b \<le> 10"
  proof (rule ballI)
    fix b assume "b \<in> set (sub_batches names)"
    then show "b \<noteq> [] \<and> length b \<le> 10" by (rule sub_batches_bounded)
  qed
  show ?thesis
    by (intro exI [of _ body] conjI h c1 c2 c3 c4 c5 b(3) c6 c7 c8)
qed

lemmas batch_sample_defs = sample_batch_def sample_rows_def calm_def name_cache_def

theorem C9_batch_partial_failure_witness:
  "PREMIUM \<noteq> FREE \<and> length sample_batch = 5
   \<and> length (filter (origin_fails sample_rows) sample_batch) = 2
   \<and> origin_fails sample_rows (sample_batch ! 1) \<and> uncached Map.empty name_cache (sample_batch ! 1)
   \<and> origin_fails sample_rows (sample_batch ! 3) \<and> uncached Map.empty name_cache (sample_batch ! 3)
   \<and> (\<exists>body. fst (batch_handler (\<lambda>s. None) (\<lambda>v. []) PREMIUM False sample_rows 0 7 sample_batch
                    Map.empty name_cache) = BatchOk body
         \<and> length (results body) = 5
         \<and> length (filter (\<lambda>r. confidence r = 0) (results body)) = 2
         \<and> errorCount body = 2)"
proof -
  have tier: "PREMIUM \<noteq> FREE" by simp
  have len: "length sample_batch = 5" by (simp add: sample_batch_def)
  then have some: "sample_batch \<noteq> []" and few: "length sample_batch \<le> 100" by auto
  have cnt: "length (filter (origin_fails sample_rows) sample_batch) = 2"
    by (simp add: batch_sample_defs origin_fails_def)
  have unc: "\<forall>x\<in>set sample_batch. origin_fails sample_rows x \<longrightarrow> uncached Map.empty name_cache x"
    by (simp add: batch_sample_defs uncached_def)
  have same: "\<forall>x\<in>set sample_batch. \<forall>y\<in>set sample_batch.
      fst x = fst y \<longrightarrow> origin_fails sample_rows x = origin_fails sample_rows y"
    by (simp add: batch_sample_defs origin_fails_def)
  from C9_batch_partial_failure [OF tier some few unc same,
      of "\<lambda>s. None" "\<lambda>v. []" False 0 7]
  obtain body where b:
    "fst (batch_handler (\<lambda>s. None) (\<lambda>v. []) PREMIUM False sample_rows 0 7 sample_batch
            Map.empty name_cache) = BatchOk body"
    "length (results body) = length sample_batch"
    "length (filter (\<lambda>r. confidence r = 0) (results body))
       = length (filter (origin_fails sample_rows) sample_batch)"
    "errorCount body = int (length (filter (origin_fails sample_rows) sample_batch))"
    by blast
  have ex: "\<exists>body. fst (batch_handler (\<lambda>s. None) (\<lambda>v. []) PREMIUM False sample_rows 0 7 sample_batch
                    Map.empty name_cache) = BatchOk body
         \<and> length (results body) = 5
         \<and> length (filter (\<lambda>r. confidence r = 0) (results body)) = 2
         \<and> errorCount body = 2"
    using b unfolding len cnt by (intro exI [of _ body]) simp
  have f1: "origin_fails sample_rows (sample_batch ! 1)"
    and u1: "uncached Map.empty name_cache (sample_batch ! 1)"
    and f3: "origin_fails sample_rows (sample_batch ! 3)"
    and u3: "uncached Map.empty name_cache (sample_batch ! 3)"
    by (simp_all add: batch_sample_defs origin_fails_def uncached_def)
  show ?thesis
    by (intro conjI tier len cnt f1 u1 f3 u3 ex)
qed


end
